theory Spec2Isabelle
  imports Main "HOL-Library.AList" "HOL-Library.Sublist"
begin

section \<open>JavaScript values used by the calendar utilities\<close>

text \<open>
  The utilities take and return JavaScript Numbers. The model covers the Numbers the
  documented parameter types allow: integer-valued Numbers (\<open>Fin n\<close>) and \<open>NaN\<close>.
  Fractional values and the infinities are outside the model.

  The functions are modelled twice. First as functions of values, where an array is the
  list of its elements and an object the list of its properties. Then on a store, where
  arrays and objects are cells that can be written and calls allocate new ones; the
  second model is shown to return, read back from the store, what the first one returns.
\<close>

datatype number = NaN | Fin int

text \<open>Values that a property read or a strict comparison can meet in this program.\<close>

datatype jsval = Undefined | Num number | Str string

definition isNaN :: "number \<Rightarrow> bool" where
  "isNaN x = (case x of NaN \<Rightarrow> True | Fin _ \<Rightarrow> False)"

text \<open>Number arithmetic and comparison: \<open>NaN\<close> propagates, comparisons with \<open>NaN\<close> are false.\<close>

definition num_add :: "number \<Rightarrow> number \<Rightarrow> number" where
  "num_add a b = (case (a, b) of (Fin x, Fin y) \<Rightarrow> Fin (x + y) | _ \<Rightarrow> NaN)"

definition num_sub :: "number \<Rightarrow> number \<Rightarrow> number" where
  "num_sub a b = (case (a, b) of (Fin x, Fin y) \<Rightarrow> Fin (x - y) | _ \<Rightarrow> NaN)"

definition num_le :: "number \<Rightarrow> number \<Rightarrow> bool" where
  "num_le a b = (case (a, b) of (Fin x, Fin y) \<Rightarrow> x \<le> y | _ \<Rightarrow> False)"

text \<open>
  Reading the property \<open>length\<close>: a String has one; a Number (and \<open>undefined\<close>, where the
  read would throw, which this program never does) has none, so the read yields \<open>undefined\<close>.
\<close>

definition get_length :: "jsval \<Rightarrow> jsval" where
  "get_length v = (case v of Str s \<Rightarrow> Num (Fin (int (length s))) | _ \<Rightarrow> Undefined)"

text \<open>Strict equality \<open>===\<close> and its negation \<open>!==\<close>.\<close>

definition strict_eq :: "jsval \<Rightarrow> jsval \<Rightarrow> bool" where
  "strict_eq a b =
     (case (a, b) of
        (Undefined, Undefined) \<Rightarrow> True
      | (Num x, Num y) \<Rightarrow> \<not> isNaN x \<and> \<not> isNaN y \<and> x = y
      | (Str s, Str t) \<Rightarrow> s = t
      | _ \<Rightarrow> False)"

definition strict_neq :: "jsval \<Rightarrow> jsval \<Rightarrow> bool" where
  "strict_neq a b = (\<not> strict_eq a b)"

text \<open>
  The default string conversion of a Number (\<open>Number::toString\<close>, radix 10) on the
  integer-valued Numbers: the shortest decimal digits \<open>s\<close> and exponent \<open>j\<close> such that
  \<open>s * 10^j\<close>, rounded to a double, is the Number; when two such \<open>s\<close> exist, the one
  nearer to the Number (the even one in a tie). A Number of at most 21 digits prints as
  digits followed by zeros, a longer one in exponent form. Below \<open>2^53\<close> every integer is
  a Number and prints as its own decimal digits. \<open>Fin n\<close> stands for a Number, so \<open>n\<close> is
  an integer that a double holds (of magnitude below \<open>2^1024\<close>).
\<close>

definition digit_char :: "int \<Rightarrow> char" where
  "digit_char d = char_of (48 + d)"

function dec_digits :: "int \<Rightarrow> string" where
  "dec_digits n = (if n < 10 then [digit_char n] else dec_digits (n div 10) @ [digit_char (n mod 10)])"
  by pat_completeness auto
termination
  by (relation "measure nat") auto

declare dec_digits.simps [simp del]

function bit_length :: "int \<Rightarrow> nat" where
  "bit_length n = (if n \<le> 0 then 0 else Suc (bit_length (n div 2)))"
  by pat_completeness auto
termination
  by (relation "measure nat") auto

declare bit_length.simps [simp del]

text \<open>Rounding a non-negative integer to the nearest double, ties to the even significand.\<close>

definition round_to_double :: "int \<Rightarrow> int" where
  "round_to_double v =
     (if v < 2 ^ 53 then v
      else let u = 2 ^ (bit_length v - 53); q = v div u; r = v mod u
           in if 2 * r < u then q * u
              else if u < 2 * r then (q + 1) * u
              else if even q then q * u
              else (q + 1) * u)"

definition digits_candidate :: "int \<Rightarrow> nat \<Rightarrow> int option" where
  "digits_candidate x j =
     (let p = 10 ^ j; lo = x div p; hi = lo + 1;
          lo_ok = (round_to_double (lo * p) = x);
          hi_ok = (round_to_double (hi * p) = x)
      in if lo_ok \<and> hi_ok then
           (if x - lo * p < hi * p - x then Some lo
            else if hi * p - x < x - lo * p then Some hi
            else if even lo then Some lo else Some hi)
         else if lo_ok then Some lo
         else if hi_ok then Some hi
         else None)"

fun shortest_digits :: "int \<Rightarrow> nat \<Rightarrow> int \<times> nat" where
  "shortest_digits x 0 = (x, 0)"
| "shortest_digits x (Suc j) =
     (case digits_candidate x (Suc j) of
        Some s \<Rightarrow> (s, Suc j)
      | None \<Rightarrow> shortest_digits x j)"

definition strip_zeros :: "string \<Rightarrow> string" where
  "strip_zeros ds = rev (dropWhile (\<lambda>c. c = CHR ''0'') (rev ds))"

definition positive_to_string :: "int \<Rightarrow> string" where
  "positive_to_string x =
     (let (s, j) = shortest_digits x (length (dec_digits x) - 1);
          n = length (dec_digits s) + j;
          ds = strip_zeros (dec_digits s);
          k = length ds
      in if n \<le> 21 then ds @ replicate (n - k) (CHR ''0'')
         else if k = 1 then ds @ ''e+'' @ dec_digits (int (n - 1))
         else [hd ds] @ ''.'' @ tl ds @ ''e+'' @ dec_digits (int (n - 1)))"

definition ToString :: "number \<Rightarrow> string" where
  "ToString x =
     (case x of
        NaN \<Rightarrow> ''NaN''
      | Fin n \<Rightarrow>
          (if n = 0 then ''0''
           else if n < 0 then ''-'' @ positive_to_string (- n)
           else positive_to_string n))"

text \<open>\<open>String.prototype.toLowerCase\<close> on the ASCII letters, which is all the month tables hold.\<close>

definition lower_char :: "char \<Rightarrow> char" where
  "lower_char c =
     (if 65 \<le> (of_char c :: nat) \<and> (of_char c :: nat) \<le> 90 then char_of ((of_char c :: nat) + 32) else c)"

definition toLowerCase :: "string \<Rightarrow> string" where
  "toLowerCase s = map lower_char s"

text \<open>\<open>Array.prototype.indexOf\<close>: the first index holding the element, \<open>-1\<close> when there is none.\<close>

fun indexOf_from :: "int \<Rightarrow> 'a list \<Rightarrow> 'a \<Rightarrow> int" where
  "indexOf_from i [] x = - 1"
| "indexOf_from i (y # ys) x = (if y = x then i else indexOf_from (i + 1) ys x)"

definition indexOf :: "'a list \<Rightarrow> 'a \<Rightarrow> int" where
  "indexOf xs x = indexOf_from 0 xs x"

section \<open>The host's Date object\<close>

text \<open>
  \<open>Date\<close> is a host primitive; it is modelled after the ECMAScript definition of time
  values (milliseconds since the epoch, or \<open>NaN\<close>). The host time zone is taken to be UTC,
  so \<open>LocalTime\<close> and \<open>UTC\<close> are the identity.
\<close>

definition msPerDay :: int where
  "msPerDay = 86400000"

definition Day :: "int \<Rightarrow> int" where
  "Day t = t div msPerDay"

definition DaysInYear :: "int \<Rightarrow> int" where
  "DaysInYear y =
     (if y mod 4 \<noteq> 0 then 365
      else if y mod 100 \<noteq> 0 then 366
      else if y mod 400 \<noteq> 0 then 365
      else 366)"

definition DayFromYear :: "int \<Rightarrow> int" where
  "DayFromYear y = 365 * (y - 1970) + (y - 1969) div 4 - (y - 1901) div 100 + (y - 1601) div 400"

definition TimeFromYear :: "int \<Rightarrow> int" where
  "TimeFromYear y = msPerDay * DayFromYear y"

text \<open>
  \<open>YearFromTime t\<close> is the largest year \<open>y\<close> with \<open>TimeFromYear y \<le> t\<close>. It is found by
  a search from the estimate \<open>1970 + Day t div 365\<close>: first down to a year that starts
  no later than \<open>t\<close>, then up while the next year also starts no later than \<open>t\<close>.
\<close>

function year_down :: "int \<Rightarrow> int \<Rightarrow> int" where
  "year_down t y = (if t < TimeFromYear y then year_down t (y - 1) else y)"
  by pat_completeness auto
termination
proof (relation "measure (\<lambda>(t, y). nat (TimeFromYear y - t))")
  show "wf (measure (\<lambda>(t, y). nat (TimeFromYear y - t)))"
    by simp
next
  fix t y :: int
  assume lt: "t < TimeFromYear y"
  define a a' b b' c c' where "a = (y - 1 - 1969) div 4" and "a' = (y - 1969) div 4"
    and "b = (y - 1 - 1901) div 100" and "b' = (y - 1901) div 100"
    and "c = (y - 1 - 1601) div 400" and "c' = (y - 1601) div 400"
  have "a \<le> a'"
    unfolding a_def a'_def by (rule zdiv_mono1) simp_all
  moreover have "(y - 1901) div 100 \<le> (y - 1 - 1901 + 1 * 100) div 100"
    by (rule zdiv_mono1) simp_all
  then have "b' \<le> b + 1"
    unfolding b_def b'_def by (simp only: div_mult_self1 [of 100]) 
  moreover have "c \<le> c'"
    unfolding c_def c'_def by (rule zdiv_mono1) simp_all
  moreover have "DayFromYear (y - 1) = 365 * (y - 1 - 1970) + a - b + c"
    and "DayFromYear y = 365 * (y - 1970) + a' - b' + c'"
    by (simp_all only: DayFromYear_def a_def a'_def b_def b'_def c_def c'_def)
  ultimately have "DayFromYear (y - 1) < DayFromYear y"
    by simp
  then have "TimeFromYear (y - 1) < TimeFromYear y"
    by (simp add: TimeFromYear_def msPerDay_def)
  with lt show "((t, y - 1), (t, y)) \<in> measure (\<lambda>(t, y). nat (TimeFromYear y - t))"
    by simp
qed

function year_up :: "int \<Rightarrow> int \<Rightarrow> int" where
  "year_up t y = (if TimeFromYear (y + 1) \<le> t then year_up t (y + 1) else y)"
  by pat_completeness auto
termination
proof (relation "measure (\<lambda>(t, y). nat (t + 1 - TimeFromYear (y + 1)))")
  show "wf (measure (\<lambda>(t, y). nat (t + 1 - TimeFromYear (y + 1))))"
    by simp
next
  fix t y :: int
  assume le: "TimeFromYear (y + 1) \<le> t"
  define a a' b b' c c' where "a = (y + 1 - 1969) div 4" and "a' = (y + 1 + 1 - 1969) div 4"
    and "b = (y + 1 - 1901) div 100" and "b' = (y + 1 + 1 - 1901) div 100"
    and "c = (y + 1 - 1601) div 400" and "c' = (y + 1 + 1 - 1601) div 400"
  have "a \<le> a'"
    unfolding a_def a'_def by (rule zdiv_mono1) simp_all
  moreover have "(y + 1 + 1 - 1901) div 100 \<le> (y + 1 - 1901 + 1 * 100) div 100"
    by (rule zdiv_mono1) simp_all
  then have "b' \<le> b + 1"
    unfolding b_def b'_def by (simp only: div_mult_self1 [of 100])
  moreover have "c \<le> c'"
    unfolding c_def c'_def by (rule zdiv_mono1) simp_all
  moreover have "DayFromYear (y + 1) = 365 * (y + 1 - 1970) + a - b + c"
    and "DayFromYear (y + 1 + 1) = 365 * (y + 1 + 1 - 1970) + a' - b' + c'"
    by (simp_all only: DayFromYear_def a_def a'_def b_def b'_def c_def c'_def)
  ultimately have "DayFromYear (y + 1) < DayFromYear (y + 1 + 1)"
    by simp
  then have "TimeFromYear (y + 1) < TimeFromYear (y + 1 + 1)"
    by (simp add: TimeFromYear_def msPerDay_def)
  with le show "((t, y + 1), (t, y)) \<in> measure (\<lambda>(t, y). nat (t + 1 - TimeFromYear (y + 1)))"
    by simp
qed

declare year_down.simps [simp del] year_up.simps [simp del]

definition YearFromTime :: "int \<Rightarrow> int" where
  "YearFromTime t = year_up t (year_down t (1970 + Day t div 365))"

definition InLeapYear :: "int \<Rightarrow> int" where
  "InLeapYear t = (if DaysInYear (YearFromTime t) = 366 then 1 else 0)"

definition DayWithinYear :: "int \<Rightarrow> int" where
  "DayWithinYear t = Day t - DayFromYear (YearFromTime t)"

definition MonthFromTime :: "int \<Rightarrow> int" where
  "MonthFromTime t =
     (let d = DayWithinYear t; l = InLeapYear t in
      if d < 31 then 0
      else if d < 59 + l then 1
      else if d < 90 + l then 2
      else if d < 120 + l then 3
      else if d < 151 + l then 4
      else if d < 181 + l then 5
      else if d < 212 + l then 6
      else if d < 243 + l then 7
      else if d < 273 + l then 8
      else if d < 304 + l then 9
      else if d < 334 + l then 10
      else 11)"

definition DateFromTime :: "int \<Rightarrow> int" where
  "DateFromTime t =
     (let d = DayWithinYear t; l = InLeapYear t; m = MonthFromTime t in
      if m = 0 then d + 1
      else if m = 1 then d - 30
      else if m = 2 then d - 58 - l
      else if m = 3 then d - 89 - l
      else if m = 4 then d - 119 - l
      else if m = 5 then d - 150 - l
      else if m = 6 then d - 180 - l
      else if m = 7 then d - 211 - l
      else if m = 8 then d - 242 - l
      else if m = 9 then d - 272 - l
      else if m = 10 then d - 303 - l
      else d - 333 - l)"

text \<open>
  \<open>MakeDay\<close>: the day number of the first day of month \<open>mn\<close> of year \<open>ym\<close> is the start of
  the year plus the days of the months before \<open>mn\<close>; month values outside \<open>0..11\<close> carry
  into the year.
\<close>

definition DaysBeforeMonth :: "int \<Rightarrow> int \<Rightarrow> int" where
  "DaysBeforeMonth ym mn =
     (let l = (if DaysInYear ym = 366 then 1 else 0) in
      if mn = 0 then 0
      else if mn = 1 then 31
      else if mn = 2 then 59 + l
      else if mn = 3 then 90 + l
      else if mn = 4 then 120 + l
      else if mn = 5 then 151 + l
      else if mn = 6 then 181 + l
      else if mn = 7 then 212 + l
      else if mn = 8 then 243 + l
      else if mn = 9 then 273 + l
      else if mn = 10 then 304 + l
      else 334 + l)"

definition MakeDay :: "number \<Rightarrow> number \<Rightarrow> number \<Rightarrow> number" where
  "MakeDay year month date =
     (case (year, month, date) of
        (Fin y, Fin m, Fin dt) \<Rightarrow>
          (let ym = y + m div 12; mn = m mod 12
           in Fin (DayFromYear ym + DaysBeforeMonth ym mn + dt - 1))
      | _ \<Rightarrow> NaN)"

definition MakeTime :: "number \<Rightarrow> number \<Rightarrow> number \<Rightarrow> number \<Rightarrow> number" where
  "MakeTime hour minute sec ms =
     (case (hour, minute, sec, ms) of
        (Fin h, Fin m, Fin s, Fin milli) \<Rightarrow> Fin (h * 3600000 + m * 60000 + s * 1000 + milli)
      | _ \<Rightarrow> NaN)"

definition MakeDate :: "number \<Rightarrow> number \<Rightarrow> number" where
  "MakeDate day time =
     (case (day, time) of (Fin d, Fin tm) \<Rightarrow> Fin (d * msPerDay + tm) | _ \<Rightarrow> NaN)"

definition TimeClip :: "number \<Rightarrow> number" where
  "TimeClip time =
     (case time of
        NaN \<Rightarrow> NaN
      | Fin t \<Rightarrow> (if \<bar>t\<bar> > 8640000000000000 then NaN else Fin t))"

definition LocalTime :: "int \<Rightarrow> int" where
  "LocalTime t = t"

definition UTC :: "number \<Rightarrow> number" where
  "UTC t = t"

text \<open>A Date object is its time value.\<close>

datatype Date = Date (DateValue: number)

text \<open>\<open>new Date(year, month, date)\<close>: years \<open>0..99\<close> stand for \<open>1900..1999\<close>.\<close>

definition new_Date :: "number \<Rightarrow> number \<Rightarrow> number \<Rightarrow> Date" where
  "new_Date year month date =
     (let yr = (case year of
                  NaN \<Rightarrow> NaN
                | Fin yi \<Rightarrow> (if 0 \<le> yi \<and> yi \<le> 99 then Fin (1900 + yi) else Fin yi));
          finalDate = MakeDate (MakeDay yr month date) (MakeTime (Fin 0) (Fin 0) (Fin 0) (Fin 0))
      in Date (TimeClip (UTC finalDate)))"

definition getFullYear :: "Date \<Rightarrow> number" where
  "getFullYear d = (case DateValue d of NaN \<Rightarrow> NaN | Fin t \<Rightarrow> Fin (YearFromTime (LocalTime t)))"

definition getDate :: "Date \<Rightarrow> number" where
  "getDate d = (case DateValue d of NaN \<Rightarrow> NaN | Fin t \<Rightarrow> Fin (DateFromTime (LocalTime t)))"

section \<open>The utilities\<close>

text \<open>\<open>getDaysInMonth(year, month)\<close>: the date of day 0 of the month after \<open>month\<close>.\<close>

definition getDaysInMonth :: "number \<Rightarrow> number \<Rightarrow> number" where
  "getDaysInMonth year month = getDate (new_Date year month (Fin 0))"

text \<open>
  The number of days of a month as the specification words it: the Gregorian table, with
  29 days in February when the year is divisible by 4 and (not by 100 or by 400).
\<close>

definition leap_year :: "int \<Rightarrow> bool" where
  "leap_year y = (y mod 4 = 0 \<and> (y mod 100 \<noteq> 0 \<or> y mod 400 = 0))"

definition gregorian_days_in_month :: "int \<Rightarrow> int \<Rightarrow> int" where
  "gregorian_days_in_month y m =
     (if m = 2 then (if leap_year y then 29 else 28)
      else if m = 4 \<or> m = 6 \<or> m = 9 \<or> m = 11 then 30
      else 31)"

text \<open>
  \<open>isValidYear(year)\<close>: \<open>y\<close> is the Number read back by \<open>getFullYear\<close>, and the test reads
  \<open>y.length\<close> on that Number.
\<close>

definition isValidYear :: "number \<Rightarrow> bool" where
  "isValidYear year =
     (let date = new_Date year (Fin 1) (Fin 1);
          y = getFullYear date
      in if isNaN y \<or> strict_neq (get_length (Num y)) (Num (Fin 4)) then False else True)"

text \<open>
  The validator as the specification words it: the year read back is not \<open>NaN\<close> and its
  decimal string has exactly four characters.
\<close>

definition isValidYear_spec :: "number \<Rightarrow> bool" where
  "isValidYear_spec year =
     (let y = getFullYear (new_Date year (Fin 1) (Fin 1))
      in \<not> isNaN y \<and> length (ToString y) = 4)"

text \<open>
  \<open>formatDate(month, day, year, locale)\<close>. \<open>Date.prototype.toLocaleDateString\<close> is the
  host's locale-dependent formatter; it is a parameter of the model. An omitted locale is
  \<open>None\<close>.
\<close>

record format_options =
  year_option :: string
  month_option :: string
  day_option :: string

type_synonym host_format = "Date \<Rightarrow> string option \<Rightarrow> format_options \<Rightarrow> string"

definition formatDate :: "host_format \<Rightarrow> number \<Rightarrow> number \<Rightarrow> number \<Rightarrow> string option \<Rightarrow> string" where
  "formatDate toLocaleDateString month day year locale_arg =
     (let date = new_Date year (num_sub month (Fin 1)) day;
          options = \<lparr>year_option = ''numeric'', month_option = ''2-digit'', day_option = ''2-digit''\<rparr>
      in toLocaleDateString date locale_arg options)"

text \<open>
  \<open>listDaysInMonth(month, year)\<close>: the \<open>for\<close> loop counts \<open>day\<close> from 1 while
  \<open>day <= daysInMonth\<close> and pushes one formatted date per round.
\<close>

function listDaysInMonth_loop ::
  "host_format \<Rightarrow> number \<Rightarrow> number \<Rightarrow> number \<Rightarrow> int \<Rightarrow> string list \<Rightarrow> string list" where
  "listDaysInMonth_loop H month year daysInMonth day dates =
     (if num_le (Fin day) daysInMonth
      then listDaysInMonth_loop H month year daysInMonth (day + 1)
             (dates @ [formatDate H month (Fin day) year None])
      else dates)"
  by pat_completeness auto
termination
  by (relation "measure (\<lambda>(H, month, year, daysInMonth, day, dates).
         case daysInMonth of NaN \<Rightarrow> 0 | Fin n \<Rightarrow> nat (n + 1 - day))")
     (auto simp: num_le_def split: number.splits)

declare listDaysInMonth_loop.simps [simp del]

definition listDaysInMonth :: "host_format \<Rightarrow> number \<Rightarrow> number \<Rightarrow> string list" where
  "listDaysInMonth H month year =
     (let daysInMonth = getDate (new_Date year month (Fin 0));
          dates = []
      in listDaysInMonth_loop H month year daysInMonth 1 dates)"

section \<open>The locale table\<close>

definition months_2 :: "string list" where
  "months_2 =
     [''January'', ''February'', ''March'', ''April'', ''May'', ''June'',
      ''July'', ''August'', ''September'', ''October'', ''November'', ''December'']"

definition months_1 :: "string list" where
  "months_1 =
     [''enero'', ''febrero'', ''marzo'', ''abril'', ''mayo'', ''junio'',
      ''julio'', ''agosto'', ''septiembre'', ''octubre'', ''noviembre'', ''diciembre'']"

record locale_months =
  months :: "string list"

record locale_record =
  en :: locale_months
  es :: locale_months

definition locale_table :: locale_record where
  "locale_table = \<lparr>en = \<lparr>months = months_2\<rparr>, es = \<lparr>months = months_1\<rparr>\<rparr>"

section \<open>Building the calendar year\<close>

text \<open>
  An object is the list of its properties in insertion order (the keys here are month
  names, never integer-like, so insertion order is the iteration order). Writing a
  property that exists keeps its place; a new one goes to the end. The object literal
  \<open>{ [k]: v, ...collector }\<close> creates the property \<open>k\<close> and then copies the properties of
  \<open>collector\<close> onto it in order.
\<close>

record month_record =
  count :: number
  collection :: "string list"

type_synonym calendar_year = "(string \<times> month_record) list"

definition spread :: "(string \<times> 'v) list \<Rightarrow> (string \<times> 'v) list \<Rightarrow> (string \<times> 'v) list" where
  "spread target source = fold (\<lambda>(k, v). AList.update k v) source target"

text \<open>\<open>Array.prototype.reduceRight\<close> with an initial value: from the last element to the first.\<close>

definition reduceRight :: "('b \<Rightarrow> 'a \<Rightarrow> 'b) \<Rightarrow> 'b \<Rightarrow> 'a list \<Rightarrow> 'b" where
  "reduceRight f init xs = foldr (\<lambda>x acc. f acc x) xs init"

text \<open>
  The callback of \<open>getCalendarYear\<close>. The property it creates for the month \<open>current\<close>
  holds \<open>getDaysInMonth(year, index + 1)\<close> and \<open>listDaysInMonth(year, index + 1)\<close>: the
  latter receives the year as its \<open>month\<close> parameter and the month number as its \<open>year\<close>
  parameter.
\<close>

definition month_entry :: "host_format \<Rightarrow> string list \<Rightarrow> number \<Rightarrow> string \<Rightarrow> string \<times> month_record" where
  "month_entry H ms year current =
     (toLowerCase current,
      \<lparr>count = getDaysInMonth year (num_add (Fin (indexOf ms current)) (Fin 1)),
       collection = listDaysInMonth H year (num_add (Fin (indexOf ms current)) (Fin 1))\<rparr>)"

definition month_callback ::
  "host_format \<Rightarrow> string list \<Rightarrow> number \<Rightarrow> calendar_year \<Rightarrow> string \<Rightarrow> calendar_year" where
  "month_callback H ms year collector current = spread [month_entry H ms year current] collector"

definition build_year :: "host_format \<Rightarrow> string list \<Rightarrow> number \<Rightarrow> calendar_year" where
  "build_year H ms year = reduceRight (month_callback H ms year) [] ms"

text \<open>The result of \<open>getCalendarYear\<close>: the object \<open>{ error: { body } }\<close> or a calendar year.\<close>

datatype retval = ErrorObject string | CalendarYear calendar_year

definition error_body :: "number \<Rightarrow> string" where
  "error_body year =
     ''The argument passed to `calendar('YYYY')` must be a valid year between 1900 and 2100. You passed ''
       @ ToString year @ ''.''"

text \<open>
  \<open>getCalendarYear\<close> of \<open>utils/getCalendarYear.js\<close>. Its body is stated for any validator,
  so that each branch can be examined; the function itself calls \<open>isValidYear\<close>.
\<close>

definition getCalendarYear_with :: "(number \<Rightarrow> bool) \<Rightarrow> host_format \<Rightarrow> number \<Rightarrow> retval" where
  "getCalendarYear_with valid H year =
     (if \<not> valid year then ErrorObject (error_body year)
      else CalendarYear (build_year H (months (en locale_table)) year))"

definition getCalendarYear :: "host_format \<Rightarrow> number \<Rightarrow> retval" where
  "getCalendarYear H year = getCalendarYear_with isValidYear H year"

text \<open>
  The second \<open>getCalendarYear\<close>, of the bundled source. It tests \<open>isValidYear(year)\<close>
  without the negation, and it reads the identifier \<open>months\<close>, which the bundle does not
  declare (its tables are \<open>months$2\<close> and \<open>months$1\<close>): \<open>months_binding\<close> is what the
  enclosing scope binds \<open>months\<close> to, \<open>None\<close> when nothing does, and then the read throws
  a ReferenceError.
\<close>

datatype exn = ReferenceError string | TypeError string

definition getCalendarYear_bundle_with ::
  "(number \<Rightarrow> bool) \<Rightarrow> host_format \<Rightarrow> string list option \<Rightarrow> number \<Rightarrow> exn + retval" where
  "getCalendarYear_bundle_with valid H months_binding year =
     (if valid year then Inr (ErrorObject (error_body year))
      else (case months_binding of
              None \<Rightarrow> Inl (ReferenceError ''months'')
            | Some ms \<Rightarrow> Inr (CalendarYear (build_year H ms year))))"

definition getCalendarYear_bundle :: "host_format \<Rightarrow> string list option \<Rightarrow> number \<Rightarrow> exn + retval" where
  "getCalendarYear_bundle H months_binding year =
     getCalendarYear_bundle_with isValidYear H months_binding year"

section \<open>Objects and arrays in a store\<close>

text \<open>
  Arrays and objects are mutable and are held by reference. The store is the list of the
  cells allocated so far; the address of a cell is its index, so a new cell is appended.
  A value is a primitive or a reference. The arrays of this program hold strings. Date
  objects and the options object of \<open>formatDate\<close> are never written after their creation
  and are kept as values.
\<close>

datatype hval = Prim jsval | Ref nat

datatype cell = ArrayCell "string list" | ObjectCell "(string \<times> hval) list"

type_synonym store = "cell list"

definition alloc :: "store \<Rightarrow> cell \<Rightarrow> nat \<times> store" where
  "alloc h c = (length h, h @ [c])"

definition lookup :: "store \<Rightarrow> nat \<Rightarrow> cell option" where
  "lookup h a = (if a < length h then Some (h ! a) else None)"

text \<open>
  Writing a property of an object and pushing onto an array change the cell at the
  address; the program does both only on the objects and arrays it has just created.
\<close>

definition set_prop :: "store \<Rightarrow> nat \<Rightarrow> string \<Rightarrow> hval \<Rightarrow> store" where
  "set_prop h a k v =
     (case lookup h a of
        Some (ObjectCell ps) \<Rightarrow> h[a := ObjectCell (AList.update k v ps)]
      | _ \<Rightarrow> h)"

definition array_push :: "store \<Rightarrow> nat \<Rightarrow> string \<Rightarrow> store" where
  "array_push h a x =
     (case lookup h a of
        Some (ArrayCell xs) \<Rightarrow> h[a := ArrayCell (xs @ [x])]
      | _ \<Rightarrow> h)"

text \<open>
  Reading a property: on \<open>undefined\<close> it throws a TypeError, on an object it yields the
  property's value or \<open>undefined\<close>. (The properties read this way are \<open>en\<close> and \<open>months\<close>.)
\<close>

definition get_prop :: "store \<Rightarrow> hval \<Rightarrow> string \<Rightarrow> exn + hval" where
  "get_prop h v k =
     (case v of
        Prim Undefined \<Rightarrow> Inl (TypeError (''Cannot read properties of undefined (reading '' @ k @ '')''))
      | Prim _ \<Rightarrow> Inr (Prim Undefined)
      | Ref a \<Rightarrow>
          (case lookup h a of
             Some (ObjectCell ps) \<Rightarrow>
               (case map_of ps k of Some x \<Rightarrow> Inr x | None \<Rightarrow> Inr (Prim Undefined))
           | _ \<Rightarrow> Inr (Prim Undefined)))"

definition read_array :: "store \<Rightarrow> hval \<Rightarrow> string list option" where
  "read_array h v =
     (case v of
        Ref a \<Rightarrow> (case lookup h a of Some (ArrayCell xs) \<Rightarrow> Some xs | _ \<Rightarrow> None)
      | _ \<Rightarrow> None)"

definition own_props :: "store \<Rightarrow> hval \<Rightarrow> (string \<times> hval) list" where
  "own_props h v =
     (case v of
        Ref a \<Rightarrow> (case lookup h a of Some (ObjectCell ps) \<Rightarrow> ps | _ \<Rightarrow> [])
      | _ \<Rightarrow> [])"

text \<open>
  The module's own cells, in the order the bundle creates them: the arrays \<open>months$2\<close> and
  \<open>months$1\<close>, then the object \<open>locale\<close> and its two inner objects. \<open>locale_ref\<close> is what
  the constant \<open>locale\<close> is bound to.
\<close>

definition months_2_ref :: nat where
  "months_2_ref = 0"

definition months_1_ref :: nat where
  "months_1_ref = 1"

definition locale_ref :: nat where
  "locale_ref = 2"

definition init_module :: store where
  "init_module =
     [ArrayCell months_2,
      ArrayCell months_1,
      ObjectCell [(''en'', Ref 3), (''es'', Ref 4)],
      ObjectCell [(''months'', Ref months_2_ref)],
      ObjectCell [(''months'', Ref months_1_ref)]]"

text \<open>The expression \<open>locale.en.months\<close>.\<close>

definition locale_en_months :: "store \<Rightarrow> exn + hval" where
  "locale_en_months h =
     (case get_prop h (Ref locale_ref) ''en'' of
        Inl e \<Rightarrow> Inl e
      | Inr en_obj \<Rightarrow> get_prop h en_obj ''months'')"

text \<open>
  The identifier \<open>months\<close> of the bundled \<open>getCalendarYear\<close>: \<open>months_binding\<close> is the value
  the enclosing scope binds it to, \<open>None\<close> when nothing does.
\<close>

definition months_identifier :: "hval option \<Rightarrow> store \<Rightarrow> exn + hval" where
  "months_identifier months_binding h =
     (case months_binding of
        None \<Rightarrow> Inl (ReferenceError ''months'')
      | Some v \<Rightarrow> Inr v)"

text \<open>
  \<open>listDaysInMonth\<close> with its array: \<open>dates\<close> is a new array and each round of the loop
  pushes onto it; the function returns the reference.
\<close>

function listDaysInMonth_heap_loop ::
  "host_format \<Rightarrow> number \<Rightarrow> number \<Rightarrow> number \<Rightarrow> int \<Rightarrow> nat \<Rightarrow> store \<Rightarrow> store" where
  "listDaysInMonth_heap_loop H month year daysInMonth day dates h =
     (if num_le (Fin day) daysInMonth
      then listDaysInMonth_heap_loop H month year daysInMonth (day + 1) dates
             (array_push h dates (formatDate H month (Fin day) year None))
      else h)"
  by pat_completeness auto
termination
  by (relation "measure (\<lambda>(H, month, year, daysInMonth, day, dates, h).
         case daysInMonth of NaN \<Rightarrow> 0 | Fin n \<Rightarrow> nat (n + 1 - day))")
     (auto simp: num_le_def split: number.splits)

declare listDaysInMonth_heap_loop.simps [simp del]

definition listDaysInMonth_heap :: "host_format \<Rightarrow> number \<Rightarrow> number \<Rightarrow> store \<Rightarrow> hval \<times> store" where
  "listDaysInMonth_heap H month year h =
     (let daysInMonth = getDate (new_Date year month (Fin 0));
          (dates, h1) = alloc h (ArrayCell [])
      in (Ref dates, listDaysInMonth_heap_loop H month year daysInMonth 1 dates h1))"

text \<open>
  \<open>months.indexOf(current)\<close>, where \<open>months_expr\<close> evaluates the expression that denotes the
  array (\<open>locale.en.months\<close> in \<open>utils/getCalendarYear.js\<close>, the identifier \<open>months\<close> in the
  bundle). Calling \<open>indexOf\<close> on something that is not an array throws a TypeError.
\<close>

definition months_indexOf :: "(store \<Rightarrow> exn + hval) \<Rightarrow> store \<Rightarrow> string \<Rightarrow> exn + int" where
  "months_indexOf months_expr h current =
     (case months_expr h of
        Inl e \<Rightarrow> Inl e
      | Inr v \<Rightarrow>
          (case read_array h v of
             None \<Rightarrow> Inl (TypeError ''indexOf is not a function'')
           | Some xs \<Rightarrow> Inr (indexOf xs current)))"

text \<open>
  The callback with its objects. The literal creates the outer object, then the inner
  one with \<open>count\<close> and \<open>collection\<close>, stores the inner one under the lower-cased month
  name, and copies the properties of \<open>collector\<close> onto the outer object.
\<close>

definition copy_props :: "store \<Rightarrow> nat \<Rightarrow> hval \<Rightarrow> store" where
  "copy_props h target source = fold (\<lambda>(k, v) h'. set_prop h' target k v) (own_props h source) h"

definition month_callback_heap ::
  "host_format \<Rightarrow> (store \<Rightarrow> exn + hval) \<Rightarrow> number \<Rightarrow> hval \<Rightarrow> string \<Rightarrow> store \<Rightarrow> (exn + hval) \<times> store" where
  "month_callback_heap H months_expr year collector current h =
     (let (obj, h1) = alloc h (ObjectCell []);
          key = toLowerCase current;
          (inner, h2) = alloc h1 (ObjectCell [])
      in case months_indexOf months_expr h2 current of
           Inl e \<Rightarrow> (Inl e, h2)
         | Inr i \<Rightarrow>
             (let h3 = set_prop h2 inner ''count''
                         (Prim (Num (getDaysInMonth year (num_add (Fin i) (Fin 1)))))
              in case months_indexOf months_expr h3 current of
                   Inl e \<Rightarrow> (Inl e, h3)
                 | Inr j \<Rightarrow>
                     (let (coll, h4) = listDaysInMonth_heap H year (num_add (Fin j) (Fin 1)) h3;
                          h5 = set_prop h4 inner ''collection'' coll;
                          h6 = set_prop h5 obj key (Ref inner)
                      in (Inr (Ref obj), copy_props h6 obj collector))))"

text \<open>
  \<open>reduceRight\<close> on an array in the store: the length is read once, then the elements
  from the last to the first, each read when its turn comes. In the call
  \<open>months.reduceRight(callback, {})\<close> the method is looked up (a TypeError on \<open>undefined\<close>),
  then the initial object is created, then the method is called (a TypeError when the
  value is not an array). The callback closure is never written and is not a cell.
\<close>

definition array_elem :: "store \<Rightarrow> nat \<Rightarrow> nat \<Rightarrow> string option" where
  "array_elem h a k =
     (case lookup h a of
        Some (ArrayCell xs) \<Rightarrow> (if k < length xs then Some (xs ! k) else None)
      | _ \<Rightarrow> None)"

fun reduceRight_heap_loop ::
  "(hval \<Rightarrow> string \<Rightarrow> store \<Rightarrow> (exn + hval) \<times> store) \<Rightarrow> nat \<Rightarrow> nat \<Rightarrow> hval \<Rightarrow> store
     \<Rightarrow> (exn + hval) \<times> store" where
  "reduceRight_heap_loop cb a 0 acc h = (Inr acc, h)"
| "reduceRight_heap_loop cb a (Suc k) acc h =
     (case array_elem h a k of
        None \<Rightarrow> reduceRight_heap_loop cb a k acc h
      | Some x \<Rightarrow>
          (case cb acc x h of
             (Inl e, h') \<Rightarrow> (Inl e, h')
           | (Inr acc', h') \<Rightarrow> reduceRight_heap_loop cb a k acc' h'))"

definition build_year_heap ::
  "host_format \<Rightarrow> (store \<Rightarrow> exn + hval) \<Rightarrow> number \<Rightarrow> store \<Rightarrow> (exn + hval) \<times> store" where
  "build_year_heap H months_expr year h =
     (case months_expr h of
        Inl e \<Rightarrow> (Inl e, h)
      | Inr v \<Rightarrow>
          (case v of
             Prim Undefined \<Rightarrow>
               (Inl (TypeError ''Cannot read properties of undefined (reading reduceRight)''), h)
           | _ \<Rightarrow>
               (let (init, h1) = alloc h (ObjectCell [])
                in case read_array h v of
                     Some xs \<Rightarrow>
                       (case v of
                          Ref a \<Rightarrow>
                            reduceRight_heap_loop (month_callback_heap H months_expr year) a
                              (length xs) (Ref init) h1
                        | _ \<Rightarrow> (Inl (TypeError ''reduceRight is not a function''), h1))
                   | None \<Rightarrow> (Inl (TypeError ''reduceRight is not a function''), h1))))"

text \<open>The error object \<open>{ error: { body } }\<close>: two new objects.\<close>

definition error_object_heap :: "number \<Rightarrow> store \<Rightarrow> (exn + hval) \<times> store" where
  "error_object_heap year h =
     (let (outer, h1) = alloc h (ObjectCell []);
          (inner, h2) = alloc h1 (ObjectCell []);
          h3 = set_prop h2 inner ''body'' (Prim (Str (error_body year)));
          h4 = set_prop h3 outer ''error'' (Ref inner)
      in (Inr (Ref outer), h4))"

text \<open>The two \<open>getCalendarYear\<close> functions on the store.\<close>

definition getCalendarYear_heap_with ::
  "(number \<Rightarrow> bool) \<Rightarrow> host_format \<Rightarrow> number \<Rightarrow> store \<Rightarrow> (exn + hval) \<times> store" where
  "getCalendarYear_heap_with valid H year h =
     (if \<not> valid year then error_object_heap year h
      else build_year_heap H locale_en_months year h)"

definition getCalendarYear_heap :: "host_format \<Rightarrow> number \<Rightarrow> store \<Rightarrow> (exn + hval) \<times> store" where
  "getCalendarYear_heap H year h = getCalendarYear_heap_with isValidYear H year h"

definition getCalendarYear_bundle_heap_with ::
  "(number \<Rightarrow> bool) \<Rightarrow> host_format \<Rightarrow> hval option \<Rightarrow> number \<Rightarrow> store \<Rightarrow> (exn + hval) \<times> store" where
  "getCalendarYear_bundle_heap_with valid H months_binding year h =
     (if valid year then error_object_heap year h
      else build_year_heap H (months_identifier months_binding) year h)"

definition getCalendarYear_bundle_heap ::
  "host_format \<Rightarrow> hval option \<Rightarrow> number \<Rightarrow> store \<Rightarrow> (exn + hval) \<times> store" where
  "getCalendarYear_bundle_heap H months_binding year h =
     getCalendarYear_bundle_heap_with isValidYear H months_binding year h"

text \<open>
  Reading a result back from the store as the value it stands for: an array as the list
  of its strings, a month record, a calendar year, the error object. A result is an error
  object when its one property is \<open>error\<close>.
\<close>

definition read_record :: "store \<Rightarrow> hval \<Rightarrow> month_record option" where
  "read_record h v =
     (case own_props h v of
        [(k1, Prim (Num n)), (k2, c)] \<Rightarrow>
          (if k1 = ''count'' \<and> k2 = ''collection''
           then map_option (\<lambda>xs. \<lparr>count = n, collection = xs\<rparr>) (read_array h c)
           else None)
      | _ \<Rightarrow> None)"

definition read_calendar :: "store \<Rightarrow> hval \<Rightarrow> calendar_year option" where
  "read_calendar h v =
     (case v of
        Ref a \<Rightarrow>
          (case lookup h a of
             Some (ObjectCell ps) \<Rightarrow>
               those (map (\<lambda>(k, x). map_option (Pair k) (read_record h x)) ps)
           | _ \<Rightarrow> None)
      | _ \<Rightarrow> None)"

definition read_error :: "store \<Rightarrow> hval \<Rightarrow> string option" where
  "read_error h v =
     (case own_props h v of
        [(k1, e)] \<Rightarrow>
          (if k1 = ''error''
           then (case own_props h e of
                   [(k2, Prim (Str s))] \<Rightarrow> (if k2 = ''body'' then Some s else None)
                 | _ \<Rightarrow> None)
           else None)
      | _ \<Rightarrow> None)"

definition read_result :: "store \<Rightarrow> hval \<Rightarrow> retval option" where
  "read_result h v =
     (if map fst (own_props h v) = [''error'']
      then map_option ErrorObject (read_error h v)
      else map_option CalendarYear (read_calendar h v))"

definition read_locale_months :: "store \<Rightarrow> string \<Rightarrow> string list option" where
  "read_locale_months h code =
     (case get_prop h (Ref locale_ref) code of
        Inl e \<Rightarrow> None
      | Inr entry \<Rightarrow>
          (case get_prop h entry ''months'' of
             Inl e \<Rightarrow> None
           | Inr m \<Rightarrow> read_array h m))"

definition read_locale :: "store \<Rightarrow> locale_record option" where
  "read_locale h =
     (case (read_locale_months h ''en'', read_locale_months h ''es'') of
        (Some a, Some b) \<Rightarrow> Some \<lparr>en = \<lparr>months = a\<rparr>, es = \<lparr>months = b\<rparr>\<rparr>
      | _ \<Rightarrow> None)"

section \<open>Days in a month\<close>

subsection \<open>The start of a year and the year of a time value\<close>

lemma div_step:
  fixes x k :: int
  assumes "0 < k"
  shows "(x + 1) div k = (if (x + 1) mod k = 0 then x div k + 1 else x div k)"
proof -
  define q r where "q = x div k" and "r = x mod k"
  have x: "x = k * q + r"
    by (simp add: q_def r_def)
  have r: "0 \<le> r" "r < k"
    using assms by (simp_all add: r_def)
  show ?thesis
  proof (cases "r + 1 = k")
    case True
    then have e: "x + 1 = k * (q + 1) + 0"
      using x by (simp add: algebra_simps)
    have "(x + 1) div k = q + 1"
      by (rule int_div_pos_eq [OF e]) (use assms in simp_all)
    moreover have "(x + 1) mod k = 0"
      by (rule int_mod_pos_eq [OF e]) (use assms in simp_all)
    ultimately show ?thesis
      by (simp add: q_def)
  next
    case False
    with r have r1: "r + 1 < k"
      by simp
    have e: "x + 1 = k * q + (r + 1)"
      using x by simp
    have "(x + 1) div k = q"
      by (rule int_div_pos_eq [OF e]) (use r r1 in simp_all)
    moreover have "(x + 1) mod k = r + 1"
      by (rule int_mod_pos_eq [OF e]) (use r r1 in simp_all)
    ultimately show ?thesis
      using r by (simp add: q_def)
  qed
qed

lemma mod_shift_4: "(y - 1968) mod 4 = (y::int) mod 4"
proof -
  have "y - 1968 = y + 4 * (- 492)"
    by simp
  then show ?thesis
    by (simp only: mod_mult_self2)
qed

lemma mod_shift_100: "(y - 1900) mod 100 = (y::int) mod 100"
proof -
  have "y - 1900 = y + 100 * (- 19)"
    by simp
  then show ?thesis
    by (simp only: mod_mult_self2)
qed

lemma mod_shift_400: "(y - 1600) mod 400 = (y::int) mod 400"
proof -
  have "y - 1600 = y + 400 * (- 4)"
    by simp
  then show ?thesis
    by (simp only: mod_mult_self2)
qed

lemma DayFromYear_step: "DayFromYear (y + 1) = DayFromYear y + DaysInYear y"
proof -
  have a: "(y + 1 - 1969) div 4 = (if y mod 4 = 0 then (y - 1969) div 4 + 1 else (y - 1969) div 4)"
    using div_step [of 4 "y - 1969"] mod_shift_4 [of y] by (simp add: algebra_simps)
  have b: "(y + 1 - 1901) div 100 = (if y mod 100 = 0 then (y - 1901) div 100 + 1 else (y - 1901) div 100)"
    using div_step [of 100 "y - 1901"] mod_shift_100 [of y] by (simp add: algebra_simps)
  have c: "(y + 1 - 1601) div 400 = (if y mod 400 = 0 then (y - 1601) div 400 + 1 else (y - 1601) div 400)"
    using div_step [of 400 "y - 1601"] mod_shift_400 [of y] by (simp add: algebra_simps)
  have d4: "y mod 100 = 0 \<Longrightarrow> y mod 4 = 0"
    using mod_mod_cancel [of 4 100 y] by simp
  have d100: "y mod 400 = 0 \<Longrightarrow> y mod 100 = 0"
    using mod_mod_cancel [of 100 400 y] by simp
  define A B C where "A = (y - 1969) div 4" and "B = (y - 1901) div 100" and "C = (y - 1601) div 400"
  have "DayFromYear (y + 1) =
      365 * (y + 1 - 1970) + (y + 1 - 1969) div 4 - (y + 1 - 1901) div 100 + (y + 1 - 1601) div 400"
    by (simp only: DayFromYear_def)
  also have "\<dots> = 365 * (y + 1 - 1970)
      + (if y mod 4 = 0 then A + 1 else A) - (if y mod 100 = 0 then B + 1 else B)
      + (if y mod 400 = 0 then C + 1 else C)"
    by (simp only: a b c A_def B_def C_def)
  also have "\<dots> = (365 * (y - 1970) + A - B + C) + DaysInYear y"
    using d4 d100 by (auto simp: DaysInYear_def)
  also have "365 * (y - 1970) + A - B + C = DayFromYear y"
    by (simp only: DayFromYear_def A_def B_def C_def)
  finally show ?thesis .
qed

lemma DaysInYear_bounds: "365 \<le> DaysInYear y" "DaysInYear y \<le> 366"
  by (simp_all add: DaysInYear_def)

lemma DayFromYear_less: "y < y' \<Longrightarrow> DayFromYear y < DayFromYear y'"
proof (induction y' rule: int_gr_induct)
  case base
  then show ?case
    using DaysInYear_bounds(1) [of y] by (simp add: DayFromYear_step)
next
  case (step i)
  then show ?case
    using DaysInYear_bounds(1) [of i] by (simp add: DayFromYear_step)
qed

lemma DayFromYear_le: "y \<le> y' \<Longrightarrow> DayFromYear y \<le> DayFromYear y'"
  using DayFromYear_less [of y y'] by (cases "y = y'") simp_all

lemma TimeFromYear_less_iff: "TimeFromYear y < TimeFromYear y' \<longleftrightarrow> y < y'"
proof
  assume "y < y'"
  then show "TimeFromYear y < TimeFromYear y'"
    by (simp add: TimeFromYear_def msPerDay_def DayFromYear_less)
next
  assume l: "TimeFromYear y < TimeFromYear y'"
  show "y < y'"
  proof (rule ccontr)
    assume "\<not> y < y'"
    then have "DayFromYear y' \<le> DayFromYear y"
      by (simp add: DayFromYear_le)
    with l show False
      by (simp add: TimeFromYear_def msPerDay_def)
  qed
qed


lemma TimeFromYear_le_iff: "TimeFromYear y \<le> TimeFromYear y' \<longleftrightarrow> y \<le> y'"
  using TimeFromYear_less_iff [of y' y] by auto

lemma year_down_start: "TimeFromYear (year_down t y) \<le> t"
proof (induction t y rule: year_down.induct)
  case (1 t y)
  show ?case
  proof (cases "t < TimeFromYear y")
    case True
    then have "year_down t y = year_down t (y - 1)"
      by (subst year_down.simps) simp
    with 1 True show ?thesis
      by simp
  next
    case False
    then have "year_down t y = y"
      by (subst year_down.simps) simp
    with False show ?thesis
      by simp
  qed
qed

lemma year_down_next: "year_down t y = y \<or> t < TimeFromYear (year_down t y + 1)"
proof (induction t y rule: year_down.induct)
  case (1 t y)
  show ?case
  proof (cases "t < TimeFromYear y")
    case True
    then have e: "year_down t y = year_down t (y - 1)"
      by (subst year_down.simps) simp
    from 1 True have "year_down t (y - 1) = y - 1 \<or> t < TimeFromYear (year_down t (y - 1) + 1)"
      by simp
    then have "t < TimeFromYear (year_down t (y - 1) + 1)"
      using True by auto
    then show ?thesis
      by (simp add: e)
  next
    case False
    then have "year_down t y = y"
      by (subst year_down.simps) simp
    then show ?thesis
      by simp
  qed
qed

lemma year_up_spec:
  "TimeFromYear y \<le> t \<Longrightarrow> TimeFromYear (year_up t y) \<le> t \<and> t < TimeFromYear (year_up t y + 1)"
proof (induction t y rule: year_up.induct)
  case (1 t y)
  show ?case
  proof (cases "TimeFromYear (y + 1) \<le> t")
    case True
    then have "year_up t y = year_up t (y + 1)"
      by (subst year_up.simps) simp
    with 1 True show ?thesis
      by simp
  next
    case False
    then have "year_up t y = y"
      by (subst year_up.simps) simp
    with False "1.prems" show ?thesis
      by simp
  qed
qed

lemma YearFromTime_spec:
  "TimeFromYear (YearFromTime t) \<le> t \<and> t < TimeFromYear (YearFromTime t + 1)"
  unfolding YearFromTime_def by (rule year_up_spec) (rule year_down_start)

lemma YearFromTime_unique:
  assumes "TimeFromYear y \<le> t" and "t < TimeFromYear (y + 1)"
  shows "YearFromTime t = y"
proof -
  let ?Y = "YearFromTime t"
  have s: "TimeFromYear ?Y \<le> t" "t < TimeFromYear (?Y + 1)"
    using YearFromTime_spec [of t] by simp_all
  have "TimeFromYear y < TimeFromYear (?Y + 1)"
    using assms(1) s(2) by simp
  then have "y < ?Y + 1"
    by (simp only: TimeFromYear_less_iff)
  moreover have "TimeFromYear ?Y < TimeFromYear (y + 1)"
    using assms(2) s(1) by simp
  then have "?Y < y + 1"
    by (simp only: TimeFromYear_less_iff)
  ultimately show ?thesis
    by simp
qed

lemma Day_of_day: "Day (d * msPerDay) = d"
  by (simp add: Day_def msPerDay_def)

lemma YearFromTime_of_day:
  assumes "DayFromYear y \<le> d" and "d < DayFromYear (y + 1)"
  shows "YearFromTime (d * msPerDay) = y"
  using assms by (intro YearFromTime_unique) (simp_all add: TimeFromYear_def msPerDay_def)


subsection \<open>The last day of a month\<close>

lemma leap_year_iff: "leap_year y \<longleftrightarrow> DaysInYear y = 366"
  by (auto simp: leap_year_def DaysInYear_def)

lemma DaysInYear_cases: "DaysInYear y = 365 \<or> DaysInYear y = 366"
  by (simp add: DaysInYear_def)

lemma year_fields:
  assumes "0 \<le> e" and "e < DaysInYear y"
  shows "YearFromTime ((DayFromYear y + e) * msPerDay) = y"
    and "DayWithinYear ((DayFromYear y + e) * msPerDay) = e"
    and "InLeapYear ((DayFromYear y + e) * msPerDay) = (if DaysInYear y = 366 then 1 else 0)"
proof -
  show y: "YearFromTime ((DayFromYear y + e) * msPerDay) = y"
    using assms by (intro YearFromTime_of_day) (simp_all add: DayFromYear_step)
  show "DayWithinYear ((DayFromYear y + e) * msPerDay) = e"
    by (simp add: DayWithinYear_def y Day_of_day)
  show "InLeapYear ((DayFromYear y + e) * msPerDay) = (if DaysInYear y = 366 then 1 else 0)"
    by (simp only: InLeapYear_def y)
qed

lemma DateFromTime_in_year:
  assumes "0 \<le> e" and "e < DaysInYear y"
  shows "DateFromTime ((DayFromYear y + e) * msPerDay) =
     (let l = (if DaysInYear y = 366 then 1 else 0) in
      if e < 31 then e + 1
      else if e < 59 + l then e - 30
      else if e < 90 + l then e - 58 - l
      else if e < 120 + l then e - 89 - l
      else if e < 151 + l then e - 119 - l
      else if e < 181 + l then e - 150 - l
      else if e < 212 + l then e - 180 - l
      else if e < 243 + l then e - 211 - l
      else if e < 273 + l then e - 242 - l
      else if e < 304 + l then e - 272 - l
      else if e < 334 + l then e - 303 - l
      else e - 333 - l)"
  unfolding DateFromTime_def MonthFromTime_def year_fields(2,3) [OF assms]
  by (simp add: Let_def)

lemma MakeDay_day0:
  assumes "1 \<le> m" and "m \<le> 12"
  shows "MakeDay (Fin y) (Fin m) (Fin 0) =
     Fin (DayFromYear y +
       (if m = 12 then DaysInYear y else DaysBeforeMonth y m) - 1)"
proof (cases "m = 12")
  case True
  then show ?thesis
    by (simp add: MakeDay_def DaysBeforeMonth_def DayFromYear_step)
next
  case False
  with assms have "m div 12 = 0" and "m mod 12 = m"
    by simp_all
  with False show ?thesis
    by (simp add: MakeDay_def)
qed


lemma month_cases:
  assumes "1 \<le> (m::int)" and "m \<le> 12"
  shows "m = 1 \<or> m = 2 \<or> m = 3 \<or> m = 4 \<or> m = 5 \<or> m = 6 \<or> m = 7 \<or> m = 8 \<or> m = 9 \<or> m = 10
         \<or> m = 11 \<or> m = 12"
  using assms by arith

lemma last_day_offset:
  assumes "1 \<le> m" and "m \<le> 12"
  shows "0 \<le> (if m = 12 then DaysInYear y else DaysBeforeMonth y m) - 1"
    and "(if m = 12 then DaysInYear y else DaysBeforeMonth y m) - 1 < DaysInYear y"
  using month_cases [OF assms] DaysInYear_cases [of y]
  by (auto simp: DaysBeforeMonth_def)

lemma DateFromTime_last_day:
  assumes "1 \<le> m" and "m \<le> 12"
  shows "DateFromTime ((DayFromYear y + ((if m = 12 then DaysInYear y else DaysBeforeMonth y m) - 1)) * msPerDay)
         = gregorian_days_in_month y m"
  unfolding DateFromTime_in_year [OF last_day_offset [OF assms]]
  using month_cases [OF assms] DaysInYear_cases [of y]
  by (auto simp: DaysBeforeMonth_def gregorian_days_in_month_def leap_year_iff)


lemma DayFromYear_range:
  assumes "- 271820 \<le> y" and "y \<le> 275759"
  shows "- 100000000 \<le> DayFromYear y" and "DayFromYear (y + 1) \<le> 100000000"
proof -
  have "DayFromYear (- 271820) \<le> DayFromYear y"
    using assms(1) by (rule DayFromYear_le)
  moreover have "- 100000000 \<le> DayFromYear (- 271820)"
    by (simp add: DayFromYear_def)
  ultimately show "- 100000000 \<le> DayFromYear y"
    by simp
  have "DayFromYear (y + 1) \<le> DayFromYear 275760"
    using assms(2) by (intro DayFromYear_le) simp
  moreover have "DayFromYear 275760 \<le> 100000000"
    by (simp add: DayFromYear_def)
  ultimately show "DayFromYear (y + 1) \<le> 100000000"
    by simp
qed

lemma getDate_day0:
  assumes "1 \<le> m" and "m \<le> 12" and "- 271820 \<le> y" and "y \<le> 275759"
  shows "getDate (Date (TimeClip (UTC (MakeDate (MakeDay (Fin y) (Fin m) (Fin 0))
           (MakeTime (Fin 0) (Fin 0) (Fin 0) (Fin 0))))))
         = Fin (gregorian_days_in_month y m)"
proof -
  define e where "e = (if m = 12 then DaysInYear y else DaysBeforeMonth y m) - 1"
  have e: "0 \<le> e" "e < DaysInYear y"
    unfolding e_def by (rule last_day_offset [OF assms(1,2)])+
  define t where "t = (DayFromYear y + e) * msPerDay"
  have "MakeDay (Fin y) (Fin m) (Fin 0) = Fin (DayFromYear y + e)"
    by (simp add: MakeDay_day0 [OF assms(1,2)] e_def)
  then have md: "MakeDate (MakeDay (Fin y) (Fin m) (Fin 0)) (MakeTime (Fin 0) (Fin 0) (Fin 0) (Fin 0)) = Fin t"
    by (simp add: MakeDate_def MakeTime_def t_def)
  have "- 100000000 \<le> DayFromYear y + e"
    using DayFromYear_range(1) [OF assms(3,4)] e(1) by simp
  moreover have "DayFromYear y + e < 100000000"
    using DayFromYear_range(2) [OF assms(3,4)] e(2) by (simp add: DayFromYear_step)
  ultimately have "\<bar>t\<bar> \<le> 8640000000000000"
    by (simp add: t_def msPerDay_def abs_le_iff)
  then have tc: "TimeClip (UTC (Fin t)) = Fin t"
    by (simp add: TimeClip_def UTC_def)
  have "DateFromTime t = gregorian_days_in_month y m"
    unfolding t_def e_def by (rule DateFromTime_last_day [OF assms(1,2)])
  then show ?thesis
    by (simp add: md tc getDate_def LocalTime_def)
qed

lemma leap_year_two_digit:
  assumes "1 \<le> y" and "y \<le> 99"
  shows "leap_year (1900 + y) = leap_year y"
proof -
  have "(1900 + y) mod 4 = y mod 4"
    using mod_mult_self2 [of y 4 475] by (simp add: add.commute)
  moreover have "(1900 + y) mod 100 = y mod 100"
    using mod_mult_self2 [of y 100 19] by (simp add: add.commute)
  moreover have "y mod 100 \<noteq> 0"
    using assms by simp
  ultimately show ?thesis
    by (simp add: leap_year_def)
qed

lemma getDaysInMonth_general:
  assumes "1 \<le> m" and "m \<le> 12" and "- 271820 \<le> y" and "y \<le> 275759" and "y \<noteq> 0"
  shows "getDaysInMonth (Fin y) (Fin m) = Fin (gregorian_days_in_month y m)"
proof (cases "0 \<le> y \<and> y \<le> 99")
  case True
  with assms(5) have y: "1 \<le> y" "y \<le> 99"
    by simp_all
  have "getDaysInMonth (Fin y) (Fin m) = Fin (gregorian_days_in_month (1900 + y) m)"
    using True getDate_day0 [OF assms(1,2), of "1900 + y"]
    by (simp add: getDaysInMonth_def new_Date_def)
  also have "gregorian_days_in_month (1900 + y) m = gregorian_days_in_month y m"
    by (simp add: gregorian_days_in_month_def leap_year_two_digit [OF y])
  finally show ?thesis .
next
  case False
  then have "new_Date (Fin y) (Fin m) (Fin 0) =
      Date (TimeClip (UTC (MakeDate (MakeDay (Fin y) (Fin m) (Fin 0))
        (MakeTime (Fin 0) (Fin 0) (Fin 0) (Fin 0)))))"
    by (auto simp: new_Date_def)
  then show ?thesis
    by (simp only: getDaysInMonth_def getDate_day0 [OF assms(1-4)])
qed

lemma MonthFromTime_in_year:
  assumes "0 \<le> e" and "e < DaysInYear y"
  shows "MonthFromTime ((DayFromYear y + e) * msPerDay) =
     (let l = (if DaysInYear y = 366 then 1 else 0) in
      if e < 31 then 0
      else if e < 59 + l then 1
      else if e < 90 + l then 2
      else if e < 120 + l then 3
      else if e < 151 + l then 4
      else if e < 181 + l then 5
      else if e < 212 + l then 6
      else if e < 243 + l then 7
      else if e < 273 + l then 8
      else if e < 304 + l then 9
      else if e < 334 + l then 10
      else 11)"
  unfolding MonthFromTime_def year_fields(2,3) [OF assms]
  by (simp add: Let_def)

lemma DaysBeforeMonth_offset:
  assumes "0 \<le> mn" and "mn \<le> 11"
  shows "0 \<le> DaysBeforeMonth ym mn" and "DaysBeforeMonth ym mn < DaysInYear ym"
proof -
  have "mn = 0 \<or> mn = 1 \<or> mn = 2 \<or> mn = 3 \<or> mn = 4 \<or> mn = 5 \<or> mn = 6 \<or> mn = 7 \<or> mn = 8
      \<or> mn = 9 \<or> mn = 10 \<or> mn = 11"
    using assms by arith
  then show "0 \<le> DaysBeforeMonth ym mn" and "DaysBeforeMonth ym mn < DaysInYear ym"
    using DaysInYear_cases [of ym] by (auto simp: DaysBeforeMonth_def)
qed

text \<open>
  The day number that \<open>MakeDay\<close> takes for the first day of a month is the one
  ECMAScript asks for: its year, month and date are \<open>ym\<close>, \<open>mn\<close> and 1.
\<close>

lemma first_day_of_month:
  assumes "0 \<le> mn" and "mn \<le> 11"
  shows "YearFromTime ((DayFromYear ym + DaysBeforeMonth ym mn) * msPerDay) = ym
       \<and> MonthFromTime ((DayFromYear ym + DaysBeforeMonth ym mn) * msPerDay) = mn
       \<and> DateFromTime ((DayFromYear ym + DaysBeforeMonth ym mn) * msPerDay) = 1"
proof -
  have c: "mn = 0 \<or> mn = 1 \<or> mn = 2 \<or> mn = 3 \<or> mn = 4 \<or> mn = 5 \<or> mn = 6 \<or> mn = 7 \<or> mn = 8
      \<or> mn = 9 \<or> mn = 10 \<or> mn = 11"
    using assms by arith
  note o = DaysBeforeMonth_offset [OF assms, of ym]
  have "MonthFromTime ((DayFromYear ym + DaysBeforeMonth ym mn) * msPerDay) = mn"
    unfolding MonthFromTime_in_year [OF o]
    using c DaysInYear_cases [of ym] by (auto simp: DaysBeforeMonth_def)
  moreover have "DateFromTime ((DayFromYear ym + DaysBeforeMonth ym mn) * msPerDay) = 1"
    unfolding DateFromTime_in_year [OF o]
    using c DaysInYear_cases [of ym] by (auto simp: DaysBeforeMonth_def)
  ultimately show ?thesis
    using year_fields(1) [OF o] by simp
qed

text \<open>Beyond the range of time values the date is invalid.\<close>

lemma getDaysInMonth_out_of_range: "getDaysInMonth (Fin 275760) (Fin 9) = NaN"
  by code_simp

text \<open>
  C8, on the years where it holds: for a month in \<open>1..12\<close> and an integer year in \<open>-271820..275759\<close> other
  than 0 (the years whose twelve months all lie in the range of time values),
  \<open>getDaysInMonth(year, month)\<close> is the number of days of that month in the proleptic
  Gregorian calendar, February having 29 days in the years divisible by 4 and not by 100,
  or divisible by 400. The years \<open>1..99\<close> are read as \<open>1901..1999\<close>, which have the same
  months. In particular \<open>getDaysInMonth(2024, 2) = 29\<close>, \<open>getDaysInMonth(1900, 2) = 28\<close>
  and \<open>getDaysInMonth(2000, 2) = 29\<close>.
\<close>

theorem getDaysInMonth_gregorian:
  "(1 \<le> m \<and> m \<le> 12 \<and> - 271820 \<le> y \<and> y \<le> 275759 \<and> y \<noteq> 0 \<longrightarrow>
      getDaysInMonth (Fin y) (Fin m) = Fin (gregorian_days_in_month y m))
   \<and> getDaysInMonth (Fin 2024) (Fin 2) = Fin 29
   \<and> getDaysInMonth (Fin 1900) (Fin 2) = Fin 28
   \<and> getDaysInMonth (Fin 2000) (Fin 2) = Fin 29"
proof -
  have "getDaysInMonth (Fin 2024) (Fin 2) = Fin (gregorian_days_in_month 2024 2)"
    by (rule getDaysInMonth_general) simp_all
  moreover have "getDaysInMonth (Fin 1900) (Fin 2) = Fin (gregorian_days_in_month 1900 2)"
    by (rule getDaysInMonth_general) simp_all
  moreover have "getDaysInMonth (Fin 2000) (Fin 2) = Fin (gregorian_days_in_month 2000 2)"
    by (rule getDaysInMonth_general) simp_all
  ultimately show ?thesis
    using getDaysInMonth_general [of m y]
    by (simp add: gregorian_days_in_month_def leap_year_def)
qed

theorem getDaysInMonth_gregorian_witness:
  "(1::int) \<le> 2 \<and> (2::int) \<le> 12 \<and> - 271820 \<le> (2023::int) \<and> (2023::int) \<le> 275759 \<and> (2023::int) \<noteq> 0
   \<and> getDaysInMonth (Fin 2023) (Fin 2) = Fin 28
   \<and> gregorian_days_in_month 2023 2 = 28"
  using getDaysInMonth_gregorian [of 2 2023]
  by (simp add: gregorian_days_in_month_def leap_year_def)

text \<open>
  C8 at the year 0: the constructor reads it as 1900, so February has 28 days, while
  the year 0 of the proleptic Gregorian calendar is divisible by 400 and its February
  has 29.
\<close>

theorem getDaysInMonth_year_0_counterexample:
  "getDaysInMonth (Fin 0) (Fin 2) = Fin 28 \<and> gregorian_days_in_month 0 2 = 29
   \<and> getDaysInMonth (Fin 0) (Fin 2) \<noteq> Fin (gregorian_days_in_month 0 2)"
proof -
  have "getDaysInMonth (Fin 0) (Fin 2) = Fin 28"
    by code_simp
  moreover have "gregorian_days_in_month 0 2 = 29"
    by (simp add: gregorian_days_in_month_def leap_year_def)
  ultimately show ?thesis
    by simp
qed

section \<open>The validator and the error result\<close>

text \<open>
  The value read back by \<open>getFullYear\<close> is a Number, so its \<open>length\<close> is \<open>undefined\<close> and
  the test \<open>y.length !== 4\<close> holds whatever the year is.
\<close>

lemma get_length_Num: "get_length (Num y) = Undefined"
  by (simp add: get_length_def)

lemma isValidYear_False: "isValidYear year = False"
  by (simp add: isValidYear_def Let_def get_length_Num strict_neq_def strict_eq_def)

lemma getCalendarYear_error: "getCalendarYear H year = ErrorObject (error_body year)"
  by (simp add: getCalendarYear_def getCalendarYear_with_def isValidYear_False)

lemma getFullYear_2023: "getFullYear (new_Date (Fin 2023) (Fin 1) (Fin 1)) = Fin 2023"
  by code_simp

lemma error_body_2023:
  "error_body (Fin 2023) =
     ''The argument passed to `calendar('YYYY')` must be a valid year between 1900 and 2100. You passed 2023.''"
  by code_simp

text \<open>
  C1 (at the year 2023, inside \<open>[1900, 2100]\<close>): \<open>getCalendarYear(2023)\<close> does not return a
  calendar year with twelve entries; it returns the error object.
\<close>

theorem getCalendarYear_2023_is_error:
  "getCalendarYear H (Fin 2023) =
     ErrorObject ''The argument passed to `calendar('YYYY')` must be a valid year between 1900 and 2100. You passed 2023.''"
  by (simp only: getCalendarYear_error error_body_2023)

text \<open>
  C2 (at the year 2023): the year read back is 2023, which is not \<open>NaN\<close> and whose decimal
  string has four characters, so the validator as the specification words it accepts
  2023; \<open>isValidYear\<close> rejects it.
\<close>

theorem isValidYear_2023_differs_from_spec:
  "isValidYear (Fin 2023) = False \<and> isValidYear_spec (Fin 2023) = True"
  by (simp add: isValidYear_False isValidYear_spec_def getFullYear_2023 isNaN_def)
    code_simp

text \<open>
  C3: for every year, \<open>isValidYear\<close> returns false, because the \<open>length\<close> read on the
  numeric year is \<open>undefined\<close>, which is not strictly equal to 4; hence \<open>getCalendarYear\<close>
  returns the error object for every year and never a calendar year.
\<close>

theorem isValidYear_never_true:
  "isValidYear year = False
   \<and> get_length (Num (getFullYear (new_Date year (Fin 1) (Fin 1)))) = Undefined
   \<and> strict_neq Undefined (Num (Fin 4))
   \<and> getCalendarYear H year = ErrorObject (error_body year)
   \<and> getCalendarYear H year \<noteq> CalendarYear c"
  by (simp add: isValidYear_False get_length_Num getCalendarYear_error strict_neq_def strict_eq_def)

section \<open>Listing the days of a month\<close>

lemma listDaysInMonth_loop_NaN: "listDaysInMonth_loop H month year NaN day dates = dates"
  by (subst listDaysInMonth_loop.simps) (simp add: num_le_def)

lemma listDaysInMonth_loop_Fin:
  "listDaysInMonth_loop H month year (Fin n) day dates =
     dates @ map (\<lambda>d. formatDate H month (Fin d) year None) [day..n]"
proof (induction H month year "Fin n" day dates rule: listDaysInMonth_loop.induct)
  case (1 H month year day dates)
  show ?case
  proof (cases "day \<le> n")
    case True
    then have "listDaysInMonth_loop H month year (Fin n) day dates =
        listDaysInMonth_loop H month year (Fin n) (day + 1) (dates @ [formatDate H month (Fin day) year None])"
      by (subst listDaysInMonth_loop.simps) (simp add: num_le_def)
    also have "\<dots> = (dates @ [formatDate H month (Fin day) year None]) @
        map (\<lambda>d. formatDate H month (Fin d) year None) [day + 1..n]"
      using True by (intro "1.hyps") (simp add: num_le_def)
    also have "\<dots> = dates @ map (\<lambda>d. formatDate H month (Fin d) year None) [day..n]"
      using True by (simp add: upto_rec1 [of day n])
    finally show ?thesis .
  next
    case False
    then show ?thesis
      by (subst listDaysInMonth_loop.simps) (simp add: num_le_def)
  qed
qed

lemma listDaysInMonth_eq:
  "listDaysInMonth H month year =
     (case getDaysInMonth year month of
        NaN \<Rightarrow> []
      | Fin n \<Rightarrow> map (\<lambda>day. formatDate H month (Fin day) year None) [1..n])"
  by (simp add: listDaysInMonth_def getDaysInMonth_def Let_def listDaysInMonth_loop_NaN
      listDaysInMonth_loop_Fin split: number.split)

lemma getDaysInMonth_2024_2: "getDaysInMonth (Fin 2024) (Fin 2) = Fin 29"
  by code_simp

lemma getDaysInMonth_2023_2: "getDaysInMonth (Fin 2023) (Fin 2) = Fin 28"
  by code_simp

text \<open>
  C7: \<open>listDaysInMonth(month, year)\<close> computes \<open>daysInMonth\<close> by the expression that
  \<open>getDaysInMonth(year, month)\<close> evaluates and returns the formatted dates (default
  locale) of the days \<open>1..daysInMonth\<close> in ascending order, so its length is that number
  of days; when the date is invalid (\<open>NaN\<close>) the loop does not run. February 2024 gives 29
  entries, February 2023 gives 28.
\<close>

theorem listDaysInMonth_lists_each_day:
  "listDaysInMonth H month year =
     (case getDaysInMonth year month of
        NaN \<Rightarrow> []
      | Fin n \<Rightarrow> map (\<lambda>day. formatDate H month (Fin day) year None) [1..n])
   \<and> length (listDaysInMonth H month year) =
       (case getDaysInMonth year month of NaN \<Rightarrow> 0 | Fin n \<Rightarrow> nat n)
   \<and> length (listDaysInMonth H (Fin 2) (Fin 2024)) = 29
   \<and> length (listDaysInMonth H (Fin 2) (Fin 2023)) = 28"
proof -
  have "length (listDaysInMonth H month year) =
       (case getDaysInMonth year month of NaN \<Rightarrow> 0 | Fin n \<Rightarrow> nat n)"
    by (simp add: listDaysInMonth_eq split: number.split)
  moreover have "length (listDaysInMonth H (Fin 2) (Fin 2024)) = 29"
    by (simp add: listDaysInMonth_eq getDaysInMonth_2024_2)
  moreover have "length (listDaysInMonth H (Fin 2) (Fin 2023)) = 28"
    by (simp add: listDaysInMonth_eq getDaysInMonth_2023_2)
  ultimately show ?thesis
    using listDaysInMonth_eq [of H month year] by simp
qed

section \<open>Dependence on the host\<close>

lemma formatDate_cong:
  assumes "\<And>d opts. H d None opts = H' d None opts"
  shows "formatDate H month day year None = formatDate H' month day year None"
  by (simp add: formatDate_def Let_def assms)

lemma listDaysInMonth_cong:
  assumes "\<And>d opts. H d None opts = H' d None opts"
  shows "listDaysInMonth H month year = listDaysInMonth H' month year"
  by (simp add: listDaysInMonth_eq formatDate_cong [of H H', OF assms] split: number.split)

lemma build_year_cong:
  assumes "\<And>d opts. H d None opts = H' d None opts"
  shows "build_year H ms year = build_year H' ms year"
proof -
  have "month_callback H ms year = month_callback H' ms year"
    by (intro ext) (simp add: month_callback_def month_entry_def listDaysInMonth_cong [of H H', OF assms])
  then show ?thesis
    by (simp add: build_year_def)
qed

section \<open>The keys and entries of a calendar year\<close>

lemma update_fresh: "k \<notin> fst ` set ps \<Longrightarrow> AList.update k v ps = ps @ [(k, v)]"
  by (induction ps) auto

lemma spread_fresh:
  "distinct (map fst src) \<Longrightarrow> fst ` set src \<inter> fst ` set tgt = {} \<Longrightarrow> spread tgt src = tgt @ src"
  unfolding spread_def
proof (induction src arbitrary: tgt)
  case Nil
  then show ?case by simp
next
  case (Cons p src)
  obtain k v where p: "p = (k, v)"
    by (cases p)
  from Cons.prems have fresh: "k \<notin> fst ` set tgt"
    by (auto simp: p)
  from Cons.prems have "distinct (map fst src)" and "fst ` set src \<inter> fst ` set (tgt @ [(k, v)]) = {}"
    by (auto simp: p)
  then have "fold (\<lambda>(k, v). AList.update k v) src (tgt @ [(k, v)]) = (tgt @ [(k, v)]) @ src"
    by (rule Cons.IH)
  then show ?case
    by (simp add: p update_fresh [OF fresh])
qed

lemma callback_entries:
  "distinct (map toLowerCase xs) \<Longrightarrow>
     foldr (\<lambda>x acc. month_callback H ms year acc x) xs [] = map (month_entry H ms year) xs"
proof (induction xs)
  case Nil
  then show ?case by simp
next
  case (Cons x xs)
  let ?acc = "map (month_entry H ms year) xs"
  have keys: "map fst ?acc = map toLowerCase xs"
    by (simp add: month_entry_def)
  have d: "distinct (map fst ?acc)"
    using Cons.prems by (simp only: keys) simp
  have "fst ` set ?acc = set (map fst ?acc)"
    by (simp only: set_map)
  also have "\<dots> = set (map toLowerCase xs)"
    by (simp only: keys)
  finally have f: "toLowerCase x \<notin> fst ` set ?acc"
    using Cons.prems by simp
  have "month_callback H ms year ?acc x = spread [month_entry H ms year x] ?acc"
    by (rule month_callback_def)
  also have "\<dots> = [month_entry H ms year x] @ ?acc"
    using d f by (intro spread_fresh) (auto simp: month_entry_def)
  finally have "month_callback H ms year ?acc x = month_entry H ms year x # ?acc"
    by simp
  with Cons show ?case
    by simp
qed

lemma build_year_eq:
  "distinct (map toLowerCase ms) \<Longrightarrow> build_year H ms year = map (month_entry H ms year) ms"
  by (simp add: build_year_def reduceRight_def callback_entries)

lemma build_year_keys:
  "distinct (map toLowerCase ms) \<Longrightarrow> map fst (build_year H ms year) = map toLowerCase ms"
  by (simp add: build_year_eq month_entry_def)

lemma lower_months_2:
  "map toLowerCase months_2 =
     [''january'', ''february'', ''march'', ''april'', ''may'', ''june'',
      ''july'', ''august'', ''september'', ''october'', ''november'', ''december'']"
  by code_simp

lemma distinct_lower_months_2: "distinct (map toLowerCase months_2)"
  by (simp add: lower_months_2)

lemma en_months: "months (en locale_table) = months_2"
  by (simp add: locale_table_def)

text \<open>
  C6: when the body of \<open>getCalendarYear\<close> returns a calendar year, its keys in insertion
  order are the lower-cased month names of the locale's list in calendar order, january
  to december: twelve keys, all different, although \<open>reduceRight\<close> visits the months
  from the last to the first.
\<close>

theorem calendar_keys_in_calendar_order:
  assumes "getCalendarYear_with valid H year = CalendarYear c"
  shows "map fst c = map toLowerCase (months (en locale_table))
         \<and> map fst c =
             [''january'', ''february'', ''march'', ''april'', ''may'', ''june'',
              ''july'', ''august'', ''september'', ''october'', ''november'', ''december'']
         \<and> length c = 12 \<and> distinct (map fst c)"
proof -
  from assms have c: "c = build_year H months_2 year"
    by (simp add: getCalendarYear_with_def en_months split: if_splits)
  have keys: "map fst c = map toLowerCase months_2"
    unfolding c by (rule build_year_keys [OF distinct_lower_months_2])
  have "length c = length (map fst c)"
    by simp
  also have "\<dots> = 12"
    by (simp only: keys lower_months_2) simp
  finally have "length c = 12" .
  moreover have "distinct (map fst c)"
    by (simp only: keys distinct_lower_months_2)
  ultimately show ?thesis
    using keys by (simp add: en_months lower_months_2)
qed

theorem calendar_keys_in_calendar_order_witness:
  "getCalendarYear_with (\<lambda>y. True) (\<lambda>d l opts. ToString (getDate d)) (Fin 2023)
     = CalendarYear (build_year (\<lambda>d l opts. ToString (getDate d)) months_2 (Fin 2023))
   \<and> map fst (build_year (\<lambda>d l opts. ToString (getDate d)) months_2 (Fin 2023)) =
             [''january'', ''february'', ''march'', ''april'', ''may'', ''june'',
              ''july'', ''august'', ''september'', ''october'', ''november'', ''december'']
   \<and> length (build_year (\<lambda>d l opts. ToString (getDate d)) months_2 (Fin 2023)) = 12"
proof -
  have h: "getCalendarYear_with (\<lambda>y. True) (\<lambda>d l opts. ToString (getDate d)) (Fin 2023)
     = CalendarYear (build_year (\<lambda>d l opts. ToString (getDate d)) months_2 (Fin 2023))"
    by (simp add: getCalendarYear_with_def en_months)
  from calendar_keys_in_calendar_order [OF h] show ?thesis
    using h by blast
qed

text \<open>
  What the calendar-building branch would produce for 2023: the entry of february has the
  count 28 and a collection of 31 dates, since \<open>listDaysInMonth\<close> is called with its
  arguments in the order (year, month).
\<close>

lemma getDaysInMonth_2_2023: "getDaysInMonth (Fin 2) (Fin 2023) = Fin 31"
  by code_simp
lemma february_index: "num_add (Fin (indexOf months_2 ''February'')) (Fin 1) = Fin 2"
  by code_simp

lemma build_year_2023_february:
  "\<exists>r. build_year H months_2 (Fin 2023) ! 1 = (''february'', r) \<and> count r = Fin 28 \<and> length (collection r) = 31"
proof -
  have b: "build_year H months_2 (Fin 2023) = map (month_entry H months_2 (Fin 2023)) months_2"
    by (rule build_year_eq [OF distinct_lower_months_2])
  have l: "1 < length months_2"
    by (simp add: months_2_def)
  have n: "months_2 ! 1 = ''February''"
    by (simp add: months_2_def)
  have e: "build_year H months_2 (Fin 2023) ! 1 = month_entry H months_2 (Fin 2023) ''February''"
    by (simp only: b nth_map [OF l] n)
  have "toLowerCase ''February'' = ''february''"
    by code_simp
  then show ?thesis
    unfolding e
    by (simp add: month_entry_def february_index getDaysInMonth_2023_2 listDaysInMonth_eq getDaysInMonth_2_2023)
qed

section \<open>The error object and the two validation tests\<close>

lemma ToString_1899: "ToString (Fin 1899) = ''1899''"
  by code_simp

lemma error_body_sublists:
  "sublist ''between 1900 and 2100'' (error_body year) \<and> sublist (ToString year) (error_body year)"
proof
  have "error_body year =
      ''The argument passed to `calendar('YYYY')` must be a valid year '' @ ''between 1900 and 2100''
        @ (''. You passed '' @ ToString year @ ''.'')"
    by (simp add: error_body_def)
  then show "sublist ''between 1900 and 2100'' (error_body year)"
    unfolding sublist_def by blast
next
  have "error_body year =
      ''The argument passed to `calendar('YYYY')` must be a valid year between 1900 and 2100. You passed ''
        @ ToString year @ ''.''"
    by (simp add: error_body_def)
  then show "sublist (ToString year) (error_body year)"
    unfolding sublist_def by blast
qed

text \<open>
  In \<open>utils/getCalendarYear.js\<close>, a year that fails validation gets the error object
  whose body is the fixed text with the year's string put in.
\<close>

lemma getCalendarYear_invalid_returns_error_object:
  assumes "\<not> isValidYear year"
  shows "\<exists>b. getCalendarYear H year = ErrorObject b
           \<and> b = ''The argument passed to `calendar('YYYY')` must be a valid year between 1900 and 2100. You passed ''
                 @ ToString year @ ''.''
           \<and> sublist ''between 1900 and 2100'' b
           \<and> sublist (ToString year) b"
proof -
  from assms have "getCalendarYear H year = ErrorObject (error_body year)"
    by (simp add: getCalendarYear_def getCalendarYear_with_def)
  moreover have "error_body year =
      ''The argument passed to `calendar('YYYY')` must be a valid year between 1900 and 2100. You passed ''
        @ ToString year @ ''.''"
    by (simp add: error_body_def)
  ultimately show ?thesis
    using error_body_sublists [of year] by metis
qed

text \<open>
  C4: the \<open>getCalendarYear\<close> of the bundled source returns the error object exactly when
  the validator accepts the year, and goes on to build the calendar when it rejects it;
  the \<open>getCalendarYear\<close> of \<open>utils/getCalendarYear.js\<close> returns the error object
  exactly when the validator rejects the year. With \<open>isValidYear\<close>, which rejects every
  year, the bundled function always goes on to the building expression.
\<close>

theorem bundled_getCalendarYear_inverted:
  "(\<exists>b. getCalendarYear_bundle_with valid H months_binding year = Inr (ErrorObject b)) = valid year
   \<and> (\<exists>b. getCalendarYear_with valid H year = ErrorObject b) = (\<not> valid year)
   \<and> getCalendarYear_bundle H months_binding year =
       (case months_binding of
          None \<Rightarrow> Inl (ReferenceError ''months'')
        | Some ms \<Rightarrow> Inr (CalendarYear (build_year H ms year)))"
  by (simp add: getCalendarYear_bundle_def getCalendarYear_bundle_with_def getCalendarYear_with_def
      isValidYear_False split: option.split)

section \<open>The functions on the store\<close>

subsection \<open>Stores that grow\<close>

lemma lookup_append_old: "a < length h \<Longrightarrow> lookup (h @ m) a = lookup h a"
  by (simp add: lookup_def nth_append)

lemma lookup_prefix: "prefix h h' \<Longrightarrow> a < length h \<Longrightarrow> lookup h' a = lookup h a"
  by (auto simp: prefix_def lookup_append_old)

lemma lookup_Some_less: "lookup h a = Some c \<Longrightarrow> a < length h"
  by (simp add: lookup_def split: if_splits)

lemma prefix_alloc: "prefix h0 h \<Longrightarrow> prefix h0 (snd (alloc h c))"
  by (simp add: alloc_def)

lemma prefix_update: "prefix h0 h \<Longrightarrow> length h0 \<le> a \<Longrightarrow> prefix h0 (h[a := c])"
  by (auto simp: prefix_def list_update_append)

lemma length_set_prop: "length (set_prop h a k v) = length h"
  by (simp add: set_prop_def split: option.split cell.split)

lemma prefix_set_prop: "prefix h0 h \<Longrightarrow> length h0 \<le> a \<Longrightarrow> prefix h0 (set_prop h a k v)"
  by (simp add: set_prop_def prefix_update split: option.split cell.split)

lemma length_array_push: "length (array_push h a x) = length h"
  by (simp add: array_push_def split: option.split cell.split)

lemma prefix_array_push: "prefix h0 h \<Longrightarrow> length h0 \<le> a \<Longrightarrow> prefix h0 (array_push h a x)"
  by (simp add: array_push_def prefix_update split: option.split cell.split)

lemma prefix_fold_set_prop:
  "prefix h0 h \<Longrightarrow> length h0 \<le> a \<Longrightarrow> prefix h0 (fold (\<lambda>(k, v) h'. set_prop h' a k v) ps h)"
  by (induction ps arbitrary: h) (auto simp: prefix_set_prop)

lemma prefix_copy_props: "prefix h0 h \<Longrightarrow> length h0 \<le> a \<Longrightarrow> prefix h0 (copy_props h a src)"
  by (simp add: copy_props_def prefix_fold_set_prop)

subsection \<open>The array of \<open>listDaysInMonth\<close>\<close>

lemma heap_loop_NaN: "listDaysInMonth_heap_loop H month year NaN day dates h = h"
  by (subst listDaysInMonth_heap_loop.simps) (simp add: num_le_def)

lemma heap_loop_Fin:
  "lookup h dates = Some (ArrayCell xs) \<Longrightarrow>
   listDaysInMonth_heap_loop H month year (Fin n) day dates h =
     h[dates := ArrayCell (xs @ map (\<lambda>d. formatDate H month (Fin d) year None) [day..n])]"
proof (induction H month year "Fin n" day dates h arbitrary: xs rule: listDaysInMonth_heap_loop.induct)
  case (1 H month year day dates h)
  from "1.prems" have len: "dates < length h" and cell: "h ! dates = ArrayCell xs"
    by (simp_all add: lookup_def split: if_splits)
  show ?case
  proof (cases "day \<le> n")
    case True
    let ?x = "formatDate H month (Fin day) year None"
    have push: "array_push h dates ?x = h[dates := ArrayCell (xs @ [?x])]"
      by (simp add: array_push_def "1.prems")
    have look: "lookup (array_push h dates ?x) dates = Some (ArrayCell (xs @ [?x]))"
      using len by (simp add: push lookup_def)
    have "listDaysInMonth_heap_loop H month year (Fin n) day dates h =
        listDaysInMonth_heap_loop H month year (Fin n) (day + 1) dates (array_push h dates ?x)"
      using True by (subst listDaysInMonth_heap_loop.simps) (simp add: num_le_def)
    also have "\<dots> = (array_push h dates ?x)
        [dates := ArrayCell ((xs @ [?x]) @ map (\<lambda>d. formatDate H month (Fin d) year None) [day + 1..n])]"
      using True look by (intro "1.hyps") (simp_all add: num_le_def)
    also have "\<dots> = h[dates := ArrayCell (xs @ map (\<lambda>d. formatDate H month (Fin d) year None) [day..n])]"
      using True by (simp add: push upto_rec1 [of day n])
    finally show ?thesis .
  next
    case False
    then have "listDaysInMonth_heap_loop H month year (Fin n) day dates h = h"
      by (subst listDaysInMonth_heap_loop.simps) (simp add: num_le_def)
    moreover have "h[dates := ArrayCell (xs @ map (\<lambda>d. formatDate H month (Fin d) year None) [day..n])] = h"
      using False cell by (simp add: list_update_same_conv len)
    ultimately show ?thesis
      by simp
  qed
qed

lemma listDaysInMonth_heap_eq:
  "listDaysInMonth_heap H month year h = (Ref (length h), h @ [ArrayCell (listDaysInMonth H month year)])"
proof (cases "getDaysInMonth year month")
  case NaN
  then show ?thesis
    by (simp add: listDaysInMonth_heap_def getDaysInMonth_def alloc_def heap_loop_NaN
        listDaysInMonth_eq)
next
  case (Fin n)
  have l: "lookup (h @ [ArrayCell []]) (length h) = Some (ArrayCell [])"
    by (simp add: lookup_def)
  show ?thesis
    using Fin heap_loop_Fin [OF l, of H month year n 1]
    by (simp add: listDaysInMonth_heap_def getDaysInMonth_def alloc_def listDaysInMonth_eq)
qed


subsection \<open>No function writes a cell that existed before the call\<close>

lemma prefix_listDaysInMonth_heap: "prefix h (snd (listDaysInMonth_heap H month year h))"
  by (simp add: listDaysInMonth_heap_eq)

lemma prefix_month_callback_heap:
  "prefix h (snd (month_callback_heap H months_expr year collector current h))"
proof -
  let ?h2 = "h @ [ObjectCell [], ObjectCell []]"
  have p2: "prefix h ?h2"
    by simp
  have p3: "prefix h (set_prop ?h2 (Suc (length h)) k v)" for k v
    by (rule prefix_set_prop [OF p2]) simp
  have p6: "prefix h (copy_props (set_prop (set_prop (X @ m) (Suc (length h)) k v) (length h) k' v')
      (length h) collector)" if "prefix h X" for X m k v k' v'
    by (intro prefix_copy_props prefix_set_prop prefix_prefix that) simp_all
  show ?thesis
    by (auto simp: month_callback_heap_def Let_def alloc_def listDaysInMonth_heap_eq p3
        intro: p6 [OF p3] split: sum.split)
qed

lemma prefix_reduceRight_heap_loop:
  assumes "\<And>acc x h. prefix h (snd (cb acc x h))"
  shows "prefix h (snd (reduceRight_heap_loop cb a k acc h))"
proof (induction k arbitrary: acc h)
  case 0
  then show ?case by simp
next
  case (Suc k)
  show ?case
  proof (cases "array_elem h a k")
    case None
    then show ?thesis
      using Suc by simp
  next
    case (Some x)
    obtain r h' where c: "cb acc x h = (r, h')"
      by (cases "cb acc x h")
    have p: "prefix h h'"
      using assms [of h acc x] by (simp add: c)
    show ?thesis
    proof (cases r)
      case (Inl e)
      then show ?thesis
        using Some c p by simp
    next
      case (Inr acc')
      have "prefix h' (snd (reduceRight_heap_loop cb a k acc' h'))"
        by (rule Suc)
      with p have "prefix h (snd (reduceRight_heap_loop cb a k acc' h'))"
        by (rule prefix_order.trans)
      then show ?thesis
        using Some c Inr by simp
    qed
  qed
qed

lemma prefix_build_year_heap: "prefix h (snd (build_year_heap H months_expr year h))"
proof -
  have "prefix h (snd (reduceRight_heap_loop (month_callback_heap H months_expr year) a k acc
      (h @ [ObjectCell []])))" for a k acc
    by (rule prefix_order.trans [OF _ prefix_reduceRight_heap_loop])
       (simp_all add: prefix_month_callback_heap)
  then show ?thesis
    by (simp add: build_year_heap_def alloc_def
        split: sum.split hval.split jsval.split option.split)
qed

lemma error_object_heap_eq:
  "error_object_heap year h =
     (Inr (Ref (length h)),
      h @ [ObjectCell [(''error'', Ref (Suc (length h)))],
           ObjectCell [(''body'', Prim (Str (error_body year)))]])"
  by (simp add: error_object_heap_def alloc_def set_prop_def lookup_def nth_append
      list_update_append)

lemma prefix_error_object_heap: "prefix h (snd (error_object_heap year h))"
  by (simp add: error_object_heap_eq)

lemma prefix_getCalendarYear_heap_with:
  "prefix h (snd (getCalendarYear_heap_with valid H year h))"
  by (simp add: getCalendarYear_heap_with_def prefix_error_object_heap prefix_build_year_heap)

lemma prefix_getCalendarYear_bundle_heap_with:
  "prefix h (snd (getCalendarYear_bundle_heap_with valid H months_binding year h))"
  by (simp add: getCalendarYear_bundle_heap_with_def prefix_error_object_heap
      prefix_build_year_heap)

subsection \<open>Reading the locale table\<close>

lemma table_cells:
  assumes "prefix init_module h"
  shows "lookup h 0 = Some (ArrayCell months_2)"
    and "lookup h (Suc 0) = Some (ArrayCell months_1)"
    and "lookup h 2 = Some (ObjectCell [(''en'', Ref 3), (''es'', Ref 4)])"
    and "lookup h 3 = Some (ObjectCell [(''months'', Ref 0)])"
    and "lookup h 4 = Some (ObjectCell [(''months'', Ref (Suc 0))])"
proof -
  have l: "lookup h a = lookup init_module a" if "a < 5" for a
    using that by (intro lookup_prefix [OF assms]) (simp add: init_module_def)
  show "lookup h 0 = Some (ArrayCell months_2)"
    and "lookup h (Suc 0) = Some (ArrayCell months_1)"
    and "lookup h 2 = Some (ObjectCell [(''en'', Ref 3), (''es'', Ref 4)])"
    and "lookup h 3 = Some (ObjectCell [(''months'', Ref 0)])"
    and "lookup h 4 = Some (ObjectCell [(''months'', Ref (Suc 0))])"
    by (simp_all add: l) (simp_all add: lookup_def init_module_def months_2_ref_def months_1_ref_def)
qed

lemma read_locale_prefix:
  assumes "prefix init_module h"
  shows "read_locale h = Some locale_table"
  by (simp add: read_locale_def read_locale_months_def get_prop_def read_array_def
      locale_ref_def table_cells [OF assms] locale_table_def)

lemma locale_en_months_prefix:
  assumes "prefix init_module h"
  shows "locale_en_months h = Inr (Ref 0)"
  by (simp add: locale_en_months_def get_prop_def locale_ref_def table_cells [OF assms])

lemma months_indexOf_prefix:
  assumes "prefix init_module h"
  shows "months_indexOf locale_en_months h current = Inr (indexOf months_2 current)"
  by (simp add: months_indexOf_def locale_en_months_prefix [OF assms] read_array_def
      table_cells [OF assms])


subsection \<open>Reading back from a store that has grown\<close>

lemma own_props_nonempty: "own_props h v \<noteq> [] \<Longrightarrow> \<exists>a. v = Ref a \<and> a < length h"
  by (auto simp: own_props_def lookup_def split: hval.splits if_splits)

lemma own_props_prefix: "a < length h \<Longrightarrow> prefix h h' \<Longrightarrow> own_props h' (Ref a) = own_props h (Ref a)"
  by (simp add: own_props_def lookup_prefix)

lemma lookup_prefix_Some: "lookup h a = Some c \<Longrightarrow> prefix h h' \<Longrightarrow> lookup h' a = Some c"
  using lookup_prefix [of h h' a] lookup_Some_less [of h a c] by simp

lemma read_array_prefix:
  assumes "read_array h v = Some xs" and "prefix h h'"
  shows "read_array h' v = Some xs"
proof -
  from assms(1) obtain a where v: "v = Ref a" and l: "lookup h a = Some (ArrayCell xs)"
    by (auto simp: read_array_def split: hval.splits option.splits cell.splits)
  show ?thesis
    by (simp add: read_array_def v lookup_prefix_Some [OF l assms(2)])
qed

lemma read_record_prefix:
  assumes "read_record h v = Some r" and "prefix h h'"
  shows "read_record h' v = Some r"
proof -
  from assms(1) have "own_props h v \<noteq> []"
    by (auto simp: read_record_def)
  then obtain a where v: "v = Ref a" and a: "a < length h"
    using own_props_nonempty by blast
  have o: "own_props h' v = own_props h v"
    unfolding v by (rule own_props_prefix [OF a assms(2)])
  show ?thesis
    using assms(1) read_array_prefix [OF _ assms(2)]
    by (auto simp: read_record_def o split: list.splits prod.splits hval.splits jsval.splits
        if_splits)
qed

lemma those_map_cong_Some:
  assumes "those (map f xs) = Some ys" and "\<And>x y. x \<in> set xs \<Longrightarrow> f x = Some y \<Longrightarrow> g x = Some y"
  shows "those (map g xs) = Some ys"
  using assms
proof (induction xs arbitrary: ys)
  case Nil
  then show ?case by simp
next
  case (Cons x xs)
  then show ?case
    by (auto split: option.splits)
qed

lemma read_calendar_prefix:
  assumes "read_calendar h v = Some cal" and "prefix h h'"
  shows "read_calendar h' v = Some cal"
proof -
  from assms(1) obtain a ps where v: "v = Ref a" and l: "lookup h a = Some (ObjectCell ps)"
    and t: "those (map (\<lambda>(k, x). map_option (Pair k) (read_record h x)) ps) = Some cal"
    by (auto simp: read_calendar_def split: hval.splits option.splits cell.splits)
  have l': "lookup h' a = Some (ObjectCell ps)"
    using l lookup_prefix [OF assms(2) lookup_Some_less [OF l]] by simp
  have "those (map (\<lambda>(k, x). map_option (Pair k) (read_record h' x)) ps) = Some cal"
    by (rule those_map_cong_Some [OF t]) (auto dest: read_record_prefix [OF _ assms(2)])
  then show ?thesis
    by (simp add: read_calendar_def v l')
qed

lemma read_calendar_props:
  assumes "read_calendar h v = Some cal"
  shows "map fst (own_props h v) = map fst cal"
proof -
  from assms obtain a ps where v: "v = Ref a" and l: "lookup h a = Some (ObjectCell ps)"
    and t: "those (map (\<lambda>(k, x). map_option (Pair k) (read_record h x)) ps) = Some cal"
    by (auto simp: read_calendar_def split: hval.splits option.splits cell.splits)
  from t have "map fst ps = map fst cal"
  proof (induction ps arbitrary: cal)
    case Nil
    then show ?case by simp
  next
    case (Cons p ps)
    then show ?case
      by (cases p) (auto split: option.splits)
  qed
  then show ?thesis
    by (simp add: own_props_def v l)
qed


subsection \<open>The cells a call of the callback adds\<close>

lemma set_prop_at:
  "a = length h \<Longrightarrow>
   set_prop (h @ ObjectCell ps # rest) a k v = h @ ObjectCell (AList.update k v ps) # rest"
  by (simp add: set_prop_def lookup_def nth_append)

lemma fold_set_prop_at:
  "a = length h \<Longrightarrow>
   fold (\<lambda>(k, v) h'. set_prop h' a k v) kvs (h @ ObjectCell ps # rest) =
     h @ ObjectCell (fold (\<lambda>(k, v). AList.update k v) kvs ps) # rest"
  by (induction kvs arbitrary: ps) (auto simp: set_prop_at)

lemma month_callback_heap_eq:
  assumes t: "prefix init_module h" and c: "lookup h c = Some (ObjectCell cps)"
  shows "month_callback_heap H locale_en_months year (Ref c) current h =
     (Inr (Ref (length h)),
      h @ [ObjectCell (spread [(toLowerCase current, Ref (Suc (length h)))] cps),
           ObjectCell
             [(''count'',
               Prim (Num (getDaysInMonth year (num_add (Fin (indexOf months_2 current)) (Fin 1))))),
              (''collection'', Ref (Suc (Suc (length h))))],
           ArrayCell (listDaysInMonth H year (num_add (Fin (indexOf months_2 current)) (Fin 1)))])"
proof -
  let ?n = "length h"
  let ?i = "num_add (Fin (indexOf months_2 current)) (Fin 1)"
  let ?cnt = "Prim (Num (getDaysInMonth year ?i))"
  let ?key = "toLowerCase current"
  let ?h2 = "h @ [ObjectCell [], ObjectCell []]"
  let ?h3 = "h @ [ObjectCell [], ObjectCell [(''count'', ?cnt)]]"
  let ?h4 = "h @ [ObjectCell [], ObjectCell [(''count'', ?cnt)], ArrayCell (listDaysInMonth H year ?i)]"
  let ?h5 = "h @ [ObjectCell [],
      ObjectCell [(''count'', ?cnt), (''collection'', Ref (Suc (Suc ?n)))],
      ArrayCell (listDaysInMonth H year ?i)]"
  let ?h6 = "h @ [ObjectCell [(?key, Ref (Suc ?n))],
      ObjectCell [(''count'', ?cnt), (''collection'', Ref (Suc (Suc ?n)))],
      ArrayCell (listDaysInMonth H year ?i)]"
  have a1: "alloc h (ObjectCell []) = (?n, h @ [ObjectCell []])"
    by (simp add: alloc_def)
  have a2: "alloc (h @ [ObjectCell []]) (ObjectCell []) = (Suc ?n, ?h2)"
    by (simp add: alloc_def)
  have i2: "months_indexOf locale_en_months ?h2 current = Inr (indexOf months_2 current)"
    by (rule months_indexOf_prefix) (rule prefix_order.trans [OF t], simp)
  have s3: "set_prop ?h2 (Suc ?n) ''count'' ?cnt = ?h3"
    using set_prop_at [of "Suc ?n" "h @ [ObjectCell []]" "[]" "[]" "''count''" ?cnt] by simp
  have i3: "months_indexOf locale_en_months ?h3 current = Inr (indexOf months_2 current)"
    by (rule months_indexOf_prefix) (rule prefix_order.trans [OF t], simp)
  have l4: "listDaysInMonth_heap H year ?i ?h3 = (Ref (Suc (Suc ?n)), ?h4)"
    by (simp add: listDaysInMonth_heap_eq)
  have s5: "set_prop ?h4 (Suc ?n) ''collection'' (Ref (Suc (Suc ?n))) = ?h5"
    using set_prop_at [of "Suc ?n" "h @ [ObjectCell []]" "[(''count'', ?cnt)]"
        "[ArrayCell (listDaysInMonth H year ?i)]" "''collection''" "Ref (Suc (Suc ?n))"]
    by simp
  have s6: "set_prop ?h5 ?n ?key (Ref (Suc ?n)) = ?h6"
    using set_prop_at [of ?n h "[]" _ ?key "Ref (Suc ?n)"] by simp
  have o: "own_props ?h6 (Ref c) = cps"
    using c lookup_append_old [OF lookup_Some_less [OF c]] by (simp add: own_props_def)
  have s7: "copy_props ?h6 ?n (Ref c) =
      h @ [ObjectCell (spread [(?key, Ref (Suc ?n))] cps),
           ObjectCell [(''count'', ?cnt), (''collection'', Ref (Suc (Suc ?n)))],
           ArrayCell (listDaysInMonth H year ?i)]"
    using fold_set_prop_at [of ?n h cps "[(?key, Ref (Suc ?n))]"]
    by (simp add: copy_props_def o spread_def)
  show ?thesis
    by (simp add: month_callback_heap_def a1 a2 i2 s3 i3 l4 s5 s6 s7)
qed


subsection \<open>The calendar in the store is the calendar of the functional model\<close>

lemma read_calendar_cell:
  assumes "read_calendar h (Ref c) = Some cal"
  obtains cps where "lookup h c = Some (ObjectCell cps)"
    and "those (map (\<lambda>(k, x). map_option (Pair k) (read_record h x)) cps) = Some cal"
  using assms by (auto simp: read_calendar_def split: option.splits cell.splits)

lemma month_entry_keys: "map fst (map (month_entry H ms year) xs) = map toLowerCase xs"
  by (simp add: month_entry_def)

lemma reduceRight_heap_refines:
  assumes "prefix init_module h" and "k \<le> length months_2"
    and "read_calendar h (Ref c) = Some (map (month_entry H months_2 year) (drop k months_2))"
  shows "\<exists>a h'. reduceRight_heap_loop (month_callback_heap H locale_en_months year) 0 k (Ref c) h
            = (Inr (Ref a), h')
          \<and> c \<le> a \<and> a < length h' \<and> prefix h h'
          \<and> read_calendar h' (Ref a) = Some (map (month_entry H months_2 year) months_2)"
  using assms
proof (induction k arbitrary: c h)
  case 0
  from "0.prems"(3) obtain cps where "lookup h c = Some (ObjectCell cps)"
    by (rule read_calendar_cell)
  then have "c < length h"
    by (rule lookup_Some_less)
  with "0.prems" show ?case
    by simp
next
  case (Suc k)
  let ?n = "length h"
  let ?x = "months_2 ! k"
  let ?i = "num_add (Fin (indexOf months_2 ?x)) (Fin 1)"
  let ?prev = "map (month_entry H months_2 year) (drop (Suc k) months_2)"
  from Suc.prems(2) have k: "k < length months_2"
    by simp
  from Suc.prems(3) obtain cps where c: "lookup h c = Some (ObjectCell cps)"
    and rd: "those (map (\<lambda>(k, x). map_option (Pair k) (read_record h x)) cps) = Some ?prev"
    by (rule read_calendar_cell)
  have cn: "c < ?n"
    using c by (rule lookup_Some_less)
  have keys: "map fst cps = map toLowerCase (drop (Suc k) months_2)"
    using read_calendar_props [OF Suc.prems(3)] c
    by (simp only: own_props_def month_entry_keys hval.case option.case cell.case)
  have d: "distinct (map toLowerCase (drop k months_2))"
    using distinct_lower_months_2 by (simp add: distinct_drop flip: drop_map)
  have dk: "drop k months_2 = ?x # drop (Suc k) months_2"
    using k by (simp add: Cons_nth_drop_Suc)
  have fresh: "spread [(toLowerCase ?x, Ref (Suc ?n))] cps = (toLowerCase ?x, Ref (Suc ?n)) # cps"
  proof -
    have "distinct (map fst cps)" and "toLowerCase ?x \<notin> set (map fst cps)"
      using d by (simp_all add: keys dk)
    then have "spread [(toLowerCase ?x, Ref (Suc ?n))] cps = [(toLowerCase ?x, Ref (Suc ?n))] @ cps"
      by (intro spread_fresh) auto
    then show ?thesis
      by simp
  qed
  let ?h1 = "h @ [ObjectCell ((toLowerCase ?x, Ref (Suc ?n)) # cps),
           ObjectCell
             [(''count'', Prim (Num (getDaysInMonth year ?i))),
              (''collection'', Ref (Suc (Suc ?n)))],
           ArrayCell (listDaysInMonth H year ?i)]"
  have cb: "month_callback_heap H locale_en_months year (Ref c) ?x h = (Inr (Ref ?n), ?h1)"
    using month_callback_heap_eq [OF Suc.prems(1) c, of H year ?x] by (simp add: fresh)
  have elem: "array_elem h 0 k = Some ?x"
    using k by (simp add: array_elem_def table_cells(1) [OF Suc.prems(1)])
  have p1: "prefix h ?h1"
    by simp
  have t1: "prefix init_module ?h1"
    using Suc.prems(1) p1 by (rule prefix_order.trans)
  have rec: "read_record ?h1 (Ref (Suc ?n)) =
      Some \<lparr>count = getDaysInMonth year ?i, collection = listDaysInMonth H year ?i\<rparr>"
    by (simp add: read_record_def own_props_def read_array_def lookup_def nth_append)
  have old: "those (map (\<lambda>(k, x). map_option (Pair k) (read_record ?h1 x)) cps) = Some ?prev"
    by (rule those_map_cong_Some [OF rd]) (auto dest: read_record_prefix [OF _ p1])
  have "read_calendar ?h1 (Ref ?n) =
      Some ((toLowerCase ?x,
              \<lparr>count = getDaysInMonth year ?i, collection = listDaysInMonth H year ?i\<rparr>) # ?prev)"
    using rec old by (simp add: read_calendar_def lookup_def nth_append)
  also have "(toLowerCase ?x,
              \<lparr>count = getDaysInMonth year ?i, collection = listDaysInMonth H year ?i\<rparr>) # ?prev
      = map (month_entry H months_2 year) (drop k months_2)"
    by (subst dk) (simp add: month_entry_def)
  finally have r1: "read_calendar ?h1 (Ref ?n) = Some (map (month_entry H months_2 year) (drop k months_2))" .
  from k have "k \<le> length months_2"
    by simp
  from Suc.IH [OF t1 this r1] obtain a h' where
    run: "reduceRight_heap_loop (month_callback_heap H locale_en_months year) 0 k (Ref ?n) ?h1
            = (Inr (Ref a), h')"
    and a: "?n \<le> a" "a < length h'" and p: "prefix ?h1 h'"
    and r: "read_calendar h' (Ref a) = Some (map (month_entry H months_2 year) months_2)"
    by blast
  have "reduceRight_heap_loop (month_callback_heap H locale_en_months year) 0 (Suc k) (Ref c) h
      = (Inr (Ref a), h')"
    by (simp add: elem cb run)
  moreover have "c \<le> a"
    using cn a(1) by simp
  moreover have "prefix h h'"
    using p1 p by (rule prefix_order.trans)
  ultimately show ?case
    using a(2) r by blast
qed


lemma build_year_heap_refines:
  assumes "prefix init_module h"
  shows "\<exists>a h'. build_year_heap H locale_en_months year h = (Inr (Ref a), h')
          \<and> length h \<le> a \<and> a < length h' \<and> prefix h h'
          \<and> read_calendar h' (Ref a) = Some (build_year H months_2 year)"
proof -
  let ?h1 = "h @ [ObjectCell []]"
  have t1: "prefix init_module ?h1"
    by (rule prefix_order.trans [OF assms]) simp
  have r1: "read_calendar ?h1 (Ref (length h)) =
      Some (map (month_entry H months_2 year) (drop (length months_2) months_2))"
    by (simp add: read_calendar_def lookup_def)
  from reduceRight_heap_refines [OF t1 _ r1] obtain a h' where
    run: "reduceRight_heap_loop (month_callback_heap H locale_en_months year) 0 (length months_2)
            (Ref (length h)) ?h1 = (Inr (Ref a), h')"
    and a: "length h \<le> a" "a < length h'" and p: "prefix ?h1 h'"
    and r: "read_calendar h' (Ref a) = Some (map (month_entry H months_2 year) months_2)"
    by blast
  have "build_year_heap H locale_en_months year h = (Inr (Ref a), h')"
    by (simp add: build_year_heap_def locale_en_months_prefix [OF assms] table_cells(1) [OF assms]
        read_array_def alloc_def run)
  moreover have "prefix h h'"
    by (rule prefix_order.trans [OF _ p]) simp
  ultimately show ?thesis
    using a r by (simp add: build_year_eq [OF distinct_lower_months_2])
qed

lemma read_result_calendar:
  assumes "read_calendar h v = Some (build_year H months_2 year)"
  shows "read_result h v = Some (CalendarYear (build_year H months_2 year))"
proof -
  have "map fst (own_props h v) = map toLowerCase months_2"
    using read_calendar_props [OF assms] by (simp add: build_year_keys [OF distinct_lower_months_2])
  then have "map fst (own_props h v) \<noteq> [''error'']"
    by (simp add: lower_months_2)
  then show ?thesis
    by (simp add: read_result_def assms)
qed

lemma read_result_error_object:
  "read_result
     (h @ ObjectCell [(''error'', Ref (Suc (length h)))]
        # ObjectCell [(''body'', Prim (Str s))] # rest)
     (Ref (length h)) = Some (ErrorObject s)"
  by (simp add: read_result_def read_error_def own_props_def lookup_def nth_append)

lemma read_error_prefix:
  assumes "read_error h v = Some s" and "prefix h h'"
  shows "read_error h' v = Some s"
proof -
  from assms(1) obtain e where o: "own_props h v = [(''error'', e)]"
    and b: "own_props h e = [(''body'', Prim (Str s))]"
    by (auto simp: read_error_def split: list.splits prod.splits if_splits hval.splits
        jsval.splits)
  from o obtain a where v: "v = Ref a" and a: "a < length h"
    using own_props_nonempty [of h v] by auto
  from b obtain a' where e: "e = Ref a'" and a': "a' < length h"
    using own_props_nonempty [of h e] by auto
  have "own_props h' v = [(''error'', e)]" and "own_props h' e = [(''body'', Prim (Str s))]"
    using o b own_props_prefix [OF a assms(2)] own_props_prefix [OF a' assms(2)]
    by (simp_all add: v e)
  then show ?thesis
    by (simp add: read_error_def)
qed

lemma read_result_prefix:
  assumes "read_result h v = Some x" and "prefix h h'"
  shows "read_result h' v = Some x"
proof -
  have "\<exists>a. v = Ref a \<and> a < length h"
  proof (cases "map fst (own_props h v) = [''error'']")
    case True
    then have "own_props h v \<noteq> []"
      by auto
    then show ?thesis
      by (rule own_props_nonempty)
  next
    case False
    with assms(1) obtain cal where "read_calendar h v = Some cal"
      by (auto simp: read_result_def)
    then obtain a cps where "v = Ref a" and "lookup h a = Some (ObjectCell cps)"
      by (auto simp: read_calendar_def split: hval.splits option.splits cell.splits)
    then show ?thesis
      by (auto dest: lookup_Some_less)
  qed
  then obtain a where v: "v = Ref a" and a: "a < length h"
    by blast
  have o: "own_props h' v = own_props h v"
    unfolding v by (rule own_props_prefix [OF a assms(2)])
  show ?thesis
  proof (cases "map fst (own_props h v) = [''error'']")
    case True
    with assms(1) obtain s where "read_error h v = Some s" and "x = ErrorObject s"
      by (auto simp: read_result_def)
    then show ?thesis
      using True read_error_prefix [OF _ assms(2)] by (simp add: read_result_def o)
  next
    case False
    with assms(1) obtain cal where "read_calendar h v = Some cal" and "x = CalendarYear cal"
      by (auto simp: read_result_def)
    then show ?thesis
      using False read_calendar_prefix [OF _ assms(2)] by (simp add: read_result_def o)
  qed
qed

lemma getCalendarYear_heap_refines:
  assumes "prefix init_module h"
  shows "\<exists>a h'. getCalendarYear_heap_with valid H year h = (Inr (Ref a), h')
          \<and> length h \<le> a \<and> a < length h' \<and> prefix h h'
          \<and> read_result h' (Ref a) = Some (getCalendarYear_with valid H year)"
proof (cases "valid year")
  case True
  from build_year_heap_refines [OF assms, of H year] obtain a h' where
    "build_year_heap H locale_en_months year h = (Inr (Ref a), h')"
    "length h \<le> a" "a < length h'" "prefix h h'"
    "read_calendar h' (Ref a) = Some (build_year H months_2 year)"
    by blast
  then show ?thesis
    using True
    by (auto simp: getCalendarYear_heap_with_def getCalendarYear_with_def en_months
        read_result_calendar)
next
  case False
  then show ?thesis
    using read_result_error_object [of h "error_body year" "[]"]
    by (simp add: getCalendarYear_heap_with_def getCalendarYear_with_def error_object_heap_eq)
qed

lemma error_object_twice:
  "\<exists>r1 h1 r2 h2. error_object_heap year h0 = (Inr r1, h1) \<and> error_object_heap year h1 = (Inr r2, h2)
     \<and> r1 \<noteq> r2 \<and> read_result h2 r1 = Some (ErrorObject (error_body year))
     \<and> read_result h2 r2 = Some (ErrorObject (error_body year))"
proof -
  let ?h1 = "h0 @ [ObjectCell [(''error'', Ref (Suc (length h0)))],
           ObjectCell [(''body'', Prim (Str (error_body year)))]]"
  let ?h2 = "?h1 @ [ObjectCell [(''error'', Ref (Suc (length ?h1)))],
           ObjectCell [(''body'', Prim (Str (error_body year)))]]"
  have "read_result ?h2 (Ref (length h0)) = Some (ErrorObject (error_body year))"
    using read_result_error_object [of h0 "error_body year"] by simp
  moreover have "read_result ?h2 (Ref (length ?h1)) = Some (ErrorObject (error_body year))"
    using read_result_error_object [of ?h1 "error_body year" "[]"] by simp
  ultimately show ?thesis
    by (simp add: error_object_heap_eq)
qed


subsection \<open>Two calls in a row\<close>

text \<open>
  C10: two calls of \<open>getCalendarYear\<close> with the same year, the second in the store the
  first has left, return two different objects that read back as the same value, the
  one the functional model gives. For the function as it is this holds in every store and
  on every host, since both results are the error object for the year. For its body under
  any validator it holds when the locale table is in the store as the module created it
  and the two calls meet the same default-locale formatting. The program reads no clock
  (it never calls \<open>Date\<close> without arguments); the host time zone is UTC throughout.
\<close>

theorem getCalendarYear_twice_structurally_identical:
  "(\<exists>r1 h1 r2 h2.
       getCalendarYear_heap H year h0 = (Inr r1, h1)
     \<and> getCalendarYear_heap H' year h1 = (Inr r2, h2)
     \<and> r1 \<noteq> r2
     \<and> read_result h2 r1 = read_result h2 r2
     \<and> read_result h2 r2 = Some (getCalendarYear H year))
   \<and> (prefix init_module h0 \<and> (\<forall>d opts. H d None opts = H' d None opts) \<longrightarrow>
        (\<exists>r1 h1 r2 h2.
            getCalendarYear_heap_with valid H year h0 = (Inr r1, h1)
          \<and> getCalendarYear_heap_with valid H' year h1 = (Inr r2, h2)
          \<and> r1 \<noteq> r2
          \<and> read_result h2 r1 = read_result h2 r2
          \<and> read_result h2 r2 = Some (getCalendarYear_with valid H year)))"
proof
  show "\<exists>r1 h1 r2 h2.
       getCalendarYear_heap H year h0 = (Inr r1, h1)
     \<and> getCalendarYear_heap H' year h1 = (Inr r2, h2)
     \<and> r1 \<noteq> r2
     \<and> read_result h2 r1 = read_result h2 r2
     \<and> read_result h2 r2 = Some (getCalendarYear H year)"
    using error_object_twice [of year h0]
    by (auto simp: getCalendarYear_heap_def getCalendarYear_heap_with_def isValidYear_False
        getCalendarYear_error)
next
  show "prefix init_module h0 \<and> (\<forall>d opts. H d None opts = H' d None opts) \<longrightarrow>
        (\<exists>r1 h1 r2 h2.
            getCalendarYear_heap_with valid H year h0 = (Inr r1, h1)
          \<and> getCalendarYear_heap_with valid H' year h1 = (Inr r2, h2)
          \<and> r1 \<noteq> r2
          \<and> read_result h2 r1 = read_result h2 r2
          \<and> read_result h2 r2 = Some (getCalendarYear_with valid H year))"
  proof
    assume asm: "prefix init_module h0 \<and> (\<forall>d opts. H d None opts = H' d None opts)"
    then have t0: "prefix init_module h0" and agree: "\<And>d opts. H d None opts = H' d None opts"
      by simp_all
    have same: "getCalendarYear_with valid H' year = getCalendarYear_with valid H year"
      by (simp add: getCalendarYear_with_def build_year_cong [of H H', OF agree])
    from getCalendarYear_heap_refines [OF t0, of valid H year] obtain a1 h1 where
      c1: "getCalendarYear_heap_with valid H year h0 = (Inr (Ref a1), h1)"
      and a1: "a1 < length h1" and p1: "prefix h0 h1"
      and r1: "read_result h1 (Ref a1) = Some (getCalendarYear_with valid H year)"
      by blast
    have t1: "prefix init_module h1"
      using t0 p1 by (rule prefix_order.trans)
    from getCalendarYear_heap_refines [OF t1, of valid H' year] obtain a2 h2 where
      c2: "getCalendarYear_heap_with valid H' year h1 = (Inr (Ref a2), h2)"
      and a2: "length h1 \<le> a2" and p2: "prefix h1 h2"
      and r2: "read_result h2 (Ref a2) = Some (getCalendarYear_with valid H year)"
      by (auto simp: same)
    have "read_result h2 (Ref a1) = Some (getCalendarYear_with valid H year)"
      using r1 p2 by (rule read_result_prefix)
    moreover have "Ref a1 \<noteq> Ref a2"
      using a1 a2 by simp
    ultimately show "\<exists>r1 h1 r2 h2.
            getCalendarYear_heap_with valid H year h0 = (Inr r1, h1)
          \<and> getCalendarYear_heap_with valid H' year h1 = (Inr r2, h2)
          \<and> r1 \<noteq> r2
          \<and> read_result h2 r1 = read_result h2 r2
          \<and> read_result h2 r2 = Some (getCalendarYear_with valid H year)"
      using c1 c2 r2 by (intro exI [of _ "Ref a1"] exI [of _ h1] exI [of _ "Ref a2"] exI [of _ h2]) simp
  qed
qed

theorem getCalendarYear_twice_structurally_identical_witness:
  "prefix init_module init_module
   \<and> (\<forall>d opts. (\<lambda>d l opts. ToString (getDate d)) d None opts
        = (\<lambda>d l opts. case l of None \<Rightarrow> ToString (getDate d) | Some t \<Rightarrow> t) d None opts)
   \<and> (\<exists>r1 h1 r2 h2.
         getCalendarYear_heap_with (\<lambda>y. True) (\<lambda>d l opts. ToString (getDate d)) (Fin 2023) init_module
           = (Inr r1, h1)
       \<and> getCalendarYear_heap_with (\<lambda>y. True)
           (\<lambda>d l opts. case l of None \<Rightarrow> ToString (getDate d) | Some t \<Rightarrow> t) (Fin 2023) h1
           = (Inr r2, h2)
       \<and> r1 \<noteq> r2
       \<and> read_result h2 r1 = read_result h2 r2
       \<and> read_result h2 r2
           = Some (getCalendarYear_with (\<lambda>y. True) (\<lambda>d l opts. ToString (getDate d)) (Fin 2023)))"
  using getCalendarYear_twice_structurally_identical
    [of "\<lambda>d l opts. ToString (getDate d)" "Fin 2023" init_module
        "\<lambda>d l opts. case l of None \<Rightarrow> ToString (getDate d) | Some t \<Rightarrow> t" "\<lambda>y. True"]
  by simp

subsection \<open>The locale table after a call\<close>

text \<open>
  C9: the locale table holds, for \<open>en\<close> and for \<open>es\<close>, the twelve month names in calendar
  order, and no function of the program writes it: every function that works on the
  store (\<open>listDaysInMonth\<close>, both \<open>getCalendarYear\<close> functions, under any validator and any
  binding of \<open>months\<close>) leaves each cell that existed before the call as it was and only
  adds cells, so the table read after the call is the table. \<open>getDaysInMonth\<close>,
  \<open>isValidYear\<close> and \<open>formatDate\<close> take no array or object and read none.
\<close>

theorem locale_table_never_written:
  "read_locale init_module = Some locale_table
   \<and> months (en locale_table) =
       [''January'', ''February'', ''March'', ''April'', ''May'', ''June'',
        ''July'', ''August'', ''September'', ''October'', ''November'', ''December'']
   \<and> length (months (en locale_table)) = 12
   \<and> months (es locale_table) =
       [''enero'', ''febrero'', ''marzo'', ''abril'', ''mayo'', ''junio'',
        ''julio'', ''agosto'', ''septiembre'', ''octubre'', ''noviembre'', ''diciembre'']
   \<and> length (months (es locale_table)) = 12
   \<and> prefix h (snd (getCalendarYear_heap H year h))
   \<and> prefix h (snd (getCalendarYear_heap_with valid H year h))
   \<and> prefix h (snd (getCalendarYear_bundle_heap H months_binding year h))
   \<and> prefix h (snd (getCalendarYear_bundle_heap_with valid H months_binding year h))
   \<and> prefix h (snd (listDaysInMonth_heap H month year h))
   \<and> (prefix init_module h \<longrightarrow>
          read_locale (snd (getCalendarYear_heap H year h)) = Some locale_table
        \<and> read_locale (snd (getCalendarYear_heap_with valid H year h)) = Some locale_table
        \<and> read_locale (snd (getCalendarYear_bundle_heap H months_binding year h)) = Some locale_table
        \<and> read_locale (snd (getCalendarYear_bundle_heap_with valid H months_binding year h))
            = Some locale_table
        \<and> read_locale (snd (listDaysInMonth_heap H month year h)) = Some locale_table)"
proof -
  have table: "months (en locale_table) =
       [''January'', ''February'', ''March'', ''April'', ''May'', ''June'',
        ''July'', ''August'', ''September'', ''October'', ''November'', ''December'']
   \<and> length (months (en locale_table)) = 12
   \<and> months (es locale_table) =
       [''enero'', ''febrero'', ''marzo'', ''abril'', ''mayo'', ''junio'',
        ''julio'', ''agosto'', ''septiembre'', ''octubre'', ''noviembre'', ''diciembre'']
   \<and> length (months (es locale_table)) = 12"
    by (simp add: locale_table_def months_2_def months_1_def)
  have frame: "prefix h (snd (getCalendarYear_heap H year h))"
    "prefix h (snd (getCalendarYear_heap_with valid H year h))"
    "prefix h (snd (getCalendarYear_bundle_heap H months_binding year h))"
    "prefix h (snd (getCalendarYear_bundle_heap_with valid H months_binding year h))"
    "prefix h (snd (listDaysInMonth_heap H month year h))"
    by (simp_all add: getCalendarYear_heap_def getCalendarYear_bundle_heap_def
        prefix_getCalendarYear_heap_with prefix_getCalendarYear_bundle_heap_with
        prefix_listDaysInMonth_heap)
  have keep: "read_locale h' = Some locale_table" if "prefix init_module h" and "prefix h h'" for h'
    by (rule read_locale_prefix) (rule prefix_order.trans [OF that])
  have init: "read_locale init_module = Some locale_table"
    by (rule read_locale_prefix) simp
  show ?thesis
    using table frame keep init by simp
qed

theorem locale_table_never_written_witness:
  "prefix init_module init_module
   \<and> read_locale (snd (getCalendarYear_heap_with (\<lambda>y. True) (\<lambda>d l opts. ToString (getDate d))
         (Fin 2023) init_module)) = Some locale_table
   \<and> read_locale (snd (getCalendarYear_bundle_heap_with (\<lambda>y. False)
         (\<lambda>d l opts. ToString (getDate d)) (Some (Ref months_2_ref)) (Fin 2024) init_module))
       = Some locale_table
   \<and> read_locale (snd (listDaysInMonth_heap (\<lambda>d l opts. ToString (getDate d)) (Fin 2) (Fin 2024)
         init_module)) = Some locale_table"
  using locale_table_never_written
    [where h = init_module and H = "\<lambda>d l opts. ToString (getDate d)" and year = "Fin 2023"
       and valid = "\<lambda>y. True" and months_binding = "Some (Ref months_2_ref)" and month = "Fin 2"]
    locale_table_never_written
    [where h = init_module and H = "\<lambda>d l opts. ToString (getDate d)" and year = "Fin 2024"
       and valid = "\<lambda>y. False" and months_binding = "Some (Ref months_2_ref)" and month = "Fin 2"]
  by simp

section \<open>The bundled function on a year that fails validation\<close>

text \<open>
  C5 (at the year 1899, on which validation fails): the bundled \<open>getCalendarYear\<close> does not
  return the error object, whatever \<open>months\<close> is bound to; with \<open>months\<close> unbound, as in the
  bundle, it throws a ReferenceError. The function of \<open>utils/getCalendarYear.js\<close> returns
  the error object with the year in its body.
\<close>

theorem bundled_getCalendarYear_1899_not_error_object:
  "isValidYear (Fin 1899) = False
   \<and> getCalendarYear_bundle H None (Fin 1899) = Inl (ReferenceError ''months'')
   \<and> getCalendarYear_bundle H months_binding (Fin 1899) \<noteq> Inr (ErrorObject b)
   \<and> getCalendarYear H (Fin 1899) =
       ErrorObject ''The argument passed to `calendar('YYYY')` must be a valid year between 1900 and 2100. You passed 1899.''"
proof -
  have "error_body (Fin 1899) =
      ''The argument passed to `calendar('YYYY')` must be a valid year between 1900 and 2100. You passed 1899.''"
    by (simp add: error_body_def ToString_1899)
  then show ?thesis
    by (simp add: getCalendarYear_bundle_def getCalendarYear_bundle_with_def isValidYear_False
        getCalendarYear_error split: option.split)
qed

section \<open>The string of a Number\<close>

text \<open>Small integers print their digits; from \<open>2^53\<close> on the shortest digits that denote the
  Number; from \<open>10^21\<close> on the exponent form.\<close>

lemma ToString_examples:
  "ToString (Fin 2023) = ''2023''"
  "ToString (Fin (- 5)) = ''-5''"
  "ToString (Fin 9007199254740992) = ''9007199254740992''"
  "ToString (Fin 9223372036854775808) = ''9223372036854776000''"
  "ToString (Fin 100000000000000000000) = ''100000000000000000000''"
  "ToString (Fin 1000000000000000000000) = ''1e+21''"
  "ToString (Fin 1180591620717411303424) = ''1.1805916207174113e+21''"
  by code_simp+

end
